theory Spec2Isabelle
  imports Complex_Main
begin

section \<open>JavaScript numbers\<close>

text \<open>
  The widget computes with JavaScript numbers. They are modelled as the reals extended
  by the three special values of the language: finite values compute exactly (rounding
  and overflow of the 64-bit format are not modelled, and there is a single zero, read
  as +0), while division by zero, the remainder by zero and the propagation of
  \<open>NaN\<close> through \<open>Math.max\<close> and \<open>Math.min\<close> follow the language.
\<close>

datatype jsnum = Fin real | PosInf | NegInf | NaN

fun js_neg :: "jsnum \<Rightarrow> jsnum" where
  "js_neg (Fin a) = Fin (- a)"
| "js_neg PosInf = NegInf"
| "js_neg NegInf = PosInf"
| "js_neg NaN = NaN"

text \<open>\<open>a + b\<close>\<close>

fun js_add :: "jsnum \<Rightarrow> jsnum \<Rightarrow> jsnum" where
  "js_add (Fin a) (Fin b) = Fin (a + b)"
| "js_add (Fin a) PosInf = PosInf"
| "js_add (Fin a) NegInf = NegInf"
| "js_add PosInf (Fin b) = PosInf"
| "js_add PosInf PosInf = PosInf"
| "js_add PosInf NegInf = NaN"
| "js_add NegInf (Fin b) = NegInf"
| "js_add NegInf NegInf = NegInf"
| "js_add NegInf PosInf = NaN"
| "js_add NaN b = NaN"
| "js_add a NaN = NaN"

text \<open>\<open>a - b\<close>\<close>

definition js_sub :: "jsnum \<Rightarrow> jsnum \<Rightarrow> jsnum" where
  "js_sub a b = js_add a (js_neg b)"

text \<open>\<open>a * b\<close>: an infinity times zero is \<open>NaN\<close>.\<close>

fun js_mul :: "jsnum \<Rightarrow> jsnum \<Rightarrow> jsnum" where
  "js_mul (Fin a) (Fin b) = Fin (a * b)"
| "js_mul (Fin a) PosInf = (if a = 0 then NaN else if 0 < a then PosInf else NegInf)"
| "js_mul (Fin a) NegInf = (if a = 0 then NaN else if 0 < a then NegInf else PosInf)"
| "js_mul PosInf (Fin b) = (if b = 0 then NaN else if 0 < b then PosInf else NegInf)"
| "js_mul NegInf (Fin b) = (if b = 0 then NaN else if 0 < b then NegInf else PosInf)"
| "js_mul PosInf PosInf = PosInf"
| "js_mul PosInf NegInf = NegInf"
| "js_mul NegInf PosInf = NegInf"
| "js_mul NegInf NegInf = PosInf"
| "js_mul NaN b = NaN"
| "js_mul a NaN = NaN"

text \<open>
  \<open>a / b\<close>: a non-zero finite value over zero is an infinity of the dividend's sign,
  zero over zero and an infinity over an infinity are \<open>NaN\<close>.
\<close>

fun js_div :: "jsnum \<Rightarrow> jsnum \<Rightarrow> jsnum" where
  "js_div (Fin a) (Fin b) =
     (if b \<noteq> 0 then Fin (a / b)
      else if a = 0 then NaN
      else if 0 < a then PosInf else NegInf)"
| "js_div (Fin a) PosInf = Fin 0"
| "js_div (Fin a) NegInf = Fin 0"
| "js_div PosInf (Fin b) = (if 0 \<le> b then PosInf else NegInf)"
| "js_div NegInf (Fin b) = (if 0 \<le> b then NegInf else PosInf)"
| "js_div PosInf PosInf = NaN"
| "js_div PosInf NegInf = NaN"
| "js_div NegInf PosInf = NaN"
| "js_div NegInf NegInf = NaN"
| "js_div NaN b = NaN"
| "js_div a NaN = NaN"

text \<open>Rounding towards zero, as the remainder operator does with the quotient.\<close>

definition js_trunc :: "real \<Rightarrow> int" where
  "js_trunc r = (if 0 \<le> r then \<lfloor>r\<rfloor> else \<lceil>r\<rceil>)"

text \<open>
  \<open>a % b\<close>: the remainder has the sign of the dividend; an infinite dividend or a zero
  divisor gives \<open>NaN\<close>, an infinite divisor leaves a finite dividend as it is.
\<close>

fun js_rem :: "jsnum \<Rightarrow> jsnum \<Rightarrow> jsnum" where
  "js_rem (Fin a) (Fin b) =
     (if b = 0 then NaN else Fin (a - b * of_int (js_trunc (a / b))))"
| "js_rem (Fin a) PosInf = Fin a"
| "js_rem (Fin a) NegInf = Fin a"
| "js_rem PosInf b = NaN"
| "js_rem NegInf b = NaN"
| "js_rem NaN b = NaN"
| "js_rem (Fin a) NaN = NaN"

text \<open>\<open>Math.max(a, b)\<close> and \<open>Math.min(a, b)\<close>: \<open>NaN\<close> if either argument is.\<close>

fun Math_max :: "jsnum \<Rightarrow> jsnum \<Rightarrow> jsnum" where
  "Math_max (Fin a) (Fin b) = Fin (max a b)"
| "Math_max (Fin a) PosInf = PosInf"
| "Math_max (Fin a) NegInf = Fin a"
| "Math_max PosInf (Fin b) = PosInf"
| "Math_max PosInf PosInf = PosInf"
| "Math_max PosInf NegInf = PosInf"
| "Math_max NegInf (Fin b) = Fin b"
| "Math_max NegInf PosInf = PosInf"
| "Math_max NegInf NegInf = NegInf"
| "Math_max NaN b = NaN"
| "Math_max a NaN = NaN"

fun Math_min :: "jsnum \<Rightarrow> jsnum \<Rightarrow> jsnum" where
  "Math_min (Fin a) (Fin b) = Fin (min a b)"
| "Math_min (Fin a) PosInf = Fin a"
| "Math_min (Fin a) NegInf = NegInf"
| "Math_min PosInf (Fin b) = Fin b"
| "Math_min PosInf PosInf = PosInf"
| "Math_min PosInf NegInf = NegInf"
| "Math_min NegInf (Fin b) = NegInf"
| "Math_min NegInf PosInf = NegInf"
| "Math_min NegInf NegInf = NegInf"
| "Math_min NaN b = NaN"
| "Math_min a NaN = NaN"

fun Math_floor :: "jsnum \<Rightarrow> jsnum" where
  "Math_floor (Fin a) = Fin (of_int \<lfloor>a\<rfloor>)"
| "Math_floor PosInf = PosInf"
| "Math_floor NegInf = NegInf"
| "Math_floor NaN = NaN"

text \<open>A value lies in the closed interval, or in the interval open on the right.\<close>

fun in_closed :: "real \<Rightarrow> real \<Rightarrow> jsnum \<Rightarrow> bool" where
  "in_closed lo hi (Fin a) = (lo \<le> a \<and> a \<le> hi)"
| "in_closed lo hi PosInf = False"
| "in_closed lo hi NegInf = False"
| "in_closed lo hi NaN = False"

fun in_halfopen :: "real \<Rightarrow> real \<Rightarrow> jsnum \<Rightarrow> bool" where
  "in_halfopen lo hi (Fin a) = (lo \<le> a \<and> a < hi)"
| "in_halfopen lo hi PosInf = False"
| "in_halfopen lo hi NegInf = False"
| "in_halfopen lo hi NaN = False"

section \<open>Strings of numbers\<close>

text \<open>
  \<open>String(n)\<close> writes the shortest decimal digits that read back as the same 64-bit
  value, and the special values by name. For an integer of magnitude at most \<open>2^53\<close>
  these are its decimal digits: every such integer is a 64-bit value and differs from
  its neighbours by at least one half. Beyond that bound the digits written are no
  longer those of the integer (\<open>2^60\<close> is written \<open>1152921504606847000\<close>), and a value
  with a fractional part has digits after the point; this model of numbers cannot
  express either, and the result there is \<open>None\<close>.
\<close>

definition digit_char :: "nat \<Rightarrow> char" where
  "digit_char d = ''0123456789'' ! d"

function digits_of :: "nat \<Rightarrow> string" where
  "digits_of n =
     (if n < 10 then [digit_char n] else digits_of (n div 10) @ [digit_char (n mod 10)])"
  by pat_completeness auto
termination
  by (relation "measure id") auto

declare digits_of.simps [simp del]

fun String :: "jsnum \<Rightarrow> string option" where
  "String (Fin a) =
     (if a = of_int \<lfloor>a\<rfloor> \<and> \<bar>a\<bar> \<le> 2 ^ 53
      then Some ((if a < 0 then ''-'' else '''') @ digits_of (nat \<bar>\<lfloor>a\<rfloor>\<bar>))
      else None)"
| "String PosInf = Some ''Infinity''"
| "String NegInf = Some ''-Infinity''"
| "String NaN = Some ''NaN''"

text \<open>\<open>s.padStart(n, pad)\<close>\<close>

definition padStart :: "string \<Rightarrow> nat \<Rightarrow> string \<Rightarrow> string" where
  "padStart s n pad =
     (if n \<le> length s \<or> pad = [] then s
      else take (n - length s) (concat (replicate (n - length s) pad)) @ s)"

section \<open>The pure helpers of the player\<close>

definition TOGGLE_DELAY_MS :: nat where
  "TOGGLE_DELAY_MS = 500"

definition PROGRESS_DURATION_MS :: jsnum where
  "PROGRESS_DURATION_MS = Fin 225000"

definition clamp01 :: "jsnum \<Rightarrow> jsnum" where
  "clamp01 v = Math_min (Fin 1) (Math_max (Fin 0) v)"

definition formatTime :: "jsnum \<Rightarrow> string option" where
  "formatTime totalSeconds =
     (let clamped = Math_max (Fin 0) (Math_floor totalSeconds);
          minutes = Math_floor (js_div clamped (Fin 60));
          seconds = js_rem clamped (Fin 60)
      in case String minutes of
           None \<Rightarrow> None
         | Some m \<Rightarrow>
             (case String seconds of
                None \<Rightarrow> None
              | Some s \<Rightarrow> Some (m @ '':'' @ padStart s 2 ''0'')))"

section \<open>The state of the component and of its host\<close>

datatype PlayerState = Playing | Paused | Loading

text \<open>The part of the track's bounding box that the volume handler reads.\<close>

record DOMRect =
  left :: real
  width :: real

text \<open>
  The state hooks, refs and motion values of \<open>MusicPlayer\<close>, followed by the part of
  the browser the component talks to. \<open>playerState\<close> is the constant of that name: the
  value the last render has read from the hook, from which that render computed
  \<open>isPlaying\<close> and \<open>isLoading\<close> for its handlers and effects. \<open>pendingState\<close> is the
  update that \<open>setPlayerState\<close> has queued since, which the next render will read.
  The browser's part: a clock in milliseconds, the pending
  \<open>setTimeout\<close> callbacks (handle, due time, and the \<open>nextState\<close> the callback has
  captured: the toggle's callback is the only one ever passed to \<open>setTimeout\<close>), the
  pending \<open>requestAnimationFrame\<close> handles (all of them for \<open>tick\<close>) and the handle
  of the label interval. \<open>rafId\<close> is the variable of that name in the playing effect.
  The hover flag of the volume track only selects a colour and is left out.
\<close>

record MusicPlayer =
  playerState :: PlayerState
  pendingState :: "PlayerState option"
  volume :: jsnum
  toggleTimeoutRef :: "nat option"
  isMountedRef :: bool
  artworkRotation :: jsnum
  progress :: jsnum
  lastFrameRef :: "jsnum option"
  currentSeconds :: jsnum
  rafId :: nat
  clock :: nat
  timeouts :: "(nat \<times> nat \<times> PlayerState) list"
  timerIds :: nat
  frameRequests :: "nat list"
  frameIds :: nat
  labelInterval :: "nat option"

definition totalSeconds :: jsnum where
  "totalSeconds = js_div PROGRESS_DURATION_MS (Fin 1000)"

text \<open>The first render: the initial values of the hooks, nothing scheduled yet.\<close>

definition initial :: MusicPlayer where
  "initial =
     \<lparr> playerState = Paused,
       pendingState = None,
       volume = Fin 0.65,
       toggleTimeoutRef = None,
       isMountedRef = False,
       artworkRotation = Fin 0,
       progress = Fin 0.3688889,
       lastFrameRef = None,
       currentSeconds = js_mul (Fin 0.3688889) totalSeconds,
       rafId = 0,
       clock = 0,
       timeouts = [],
       timerIds = 0,
       frameRequests = [],
       frameIds = 0,
       labelInterval = None \<rparr>"

subsection \<open>The browser's schedulers\<close>

text \<open>Handles are positive and never reused; timeouts and intervals share one pool.\<close>

definition setTimeout :: "PlayerState \<Rightarrow> nat \<Rightarrow> MusicPlayer \<Rightarrow> nat \<times> MusicPlayer" where
  "setTimeout nextState delay s =
     (let h = Suc (timerIds s)
      in (h, s\<lparr>timerIds := h, timeouts := timeouts s @ [(h, clock s + delay, nextState)]\<rparr>))"

definition clearTimeout :: "nat \<Rightarrow> MusicPlayer \<Rightarrow> MusicPlayer" where
  "clearTimeout h s = s\<lparr>timeouts := filter (\<lambda>t. fst t \<noteq> h) (timeouts s)\<rparr>"

definition setInterval :: "MusicPlayer \<Rightarrow> nat \<times> MusicPlayer" where
  "setInterval s = (let h = Suc (timerIds s) in (h, s\<lparr>timerIds := h\<rparr>))"

definition requestAnimationFrame :: "MusicPlayer \<Rightarrow> nat \<times> MusicPlayer" where
  "requestAnimationFrame s =
     (let h = Suc (frameIds s)
      in (h, s\<lparr>frameIds := h, frameRequests := frameRequests s @ [h]\<rparr>))"

definition cancelAnimationFrame :: "nat \<Rightarrow> MusicPlayer \<Rightarrow> MusicPlayer" where
  "cancelAnimationFrame h s = s\<lparr>frameRequests := filter (\<lambda>r. r \<noteq> h) (frameRequests s)\<rparr>"

subsection \<open>The animation loop\<close>

definition tick :: "jsnum \<Rightarrow> MusicPlayer \<Rightarrow> MusicPlayer" where
  "tick now s =
     (if \<not> isMountedRef s then s
      else
        let last = (case lastFrameRef s of None \<Rightarrow> now | Some l \<Rightarrow> l);
            deltaMs = Math_max (Fin 0) (js_sub now last);
            s1 = s\<lparr>lastFrameRef := Some now\<rparr>;
            rotationDelta = js_div (js_mul deltaMs (Fin 360)) (Fin 20000);
            s2 = s1\<lparr>artworkRotation :=
                      js_rem (js_add (artworkRotation s1) rotationDelta) (Fin 360)\<rparr>;
            nextProgress = js_add (progress s2) (js_div deltaMs PROGRESS_DURATION_MS);
            s3 = s2\<lparr>progress := js_rem nextProgress (Fin 1)\<rparr>;
            (h, s4) = requestAnimationFrame s3
        in s4\<lparr>rafId := h\<rparr>)"

text \<open>
  The effect that depends on \<open>isPlaying\<close>: not playing, it clears the last frame time;
  playing, it requests the first frame of a run. Its cleanup, which exists only when
  it ran playing, cancels the request held in \<open>rafId\<close>.
\<close>

definition playingEffect :: "bool \<Rightarrow> MusicPlayer \<Rightarrow> MusicPlayer" where
  "playingEffect isPlaying s =
     (if \<not> isPlaying then s\<lparr>lastFrameRef := None\<rparr>
      else let (h, s1) = requestAnimationFrame (s\<lparr>rafId := 0\<rparr>) in s1\<lparr>rafId := h\<rparr>)"

definition playingCleanup :: "bool \<Rightarrow> MusicPlayer \<Rightarrow> MusicPlayer" where
  "playingCleanup wasPlaying s = (if wasPlaying then cancelAnimationFrame (rafId s) s else s)"

text \<open>
  \<open>setPlayerState(v)\<close> queues the update and changes nothing that the handlers and
  effects of the current render can see; a later call in the same event replaces it.
\<close>

definition setPlayerState :: "PlayerState \<Rightarrow> MusicPlayer \<Rightarrow> MusicPlayer" where
  "setPlayerState v s = s\<lparr>pendingState := Some v\<rparr>"

text \<open>
  The re-render: the component function runs again and reads the queued value, and
  the playing effect is cleaned up and run again exactly when \<open>isPlaying\<close> has
  changed from the previous render. A render and its effects are taken as one step.
\<close>

definition render :: "MusicPlayer \<Rightarrow> MusicPlayer" where
  "render s =
     (case pendingState s of
        None \<Rightarrow> s
      | Some v \<Rightarrow>
          let wasPlaying = (playerState s = Playing);
              isPlaying = (v = Playing);
              s1 = s\<lparr>playerState := v, pendingState := None\<rparr>
          in if wasPlaying = isPlaying then s1
             else playingEffect isPlaying (playingCleanup wasPlaying s1))"

subsection \<open>The handlers\<close>

text \<open>\<open>isPlaying ? "paused" : "playing"\<close>\<close>

definition nextState :: "PlayerState \<Rightarrow> PlayerState" where
  "nextState current = (if current = Playing then Paused else Playing)"

text \<open>A handle held in the ref is cleared only if it is truthy, that is, not 0.\<close>

definition clearToggleTimeout :: "MusicPlayer \<Rightarrow> MusicPlayer" where
  "clearToggleTimeout s =
     (case toggleTimeoutRef s of
        None \<Rightarrow> s
      | Some h \<Rightarrow> if h \<noteq> 0 then clearTimeout h s else s)"

text \<open>
  The handler reads \<open>isLoading\<close> and \<open>isPlaying\<close> of the render it was created in,
  that is \<open>playerState\<close>, not the update queued since: a call that comes before the
  next render does not see what an earlier call has queued.
\<close>

definition handleTogglePlayPause :: "MusicPlayer \<Rightarrow> MusicPlayer" where
  "handleTogglePlayPause s =
     (if playerState s = Loading then s
      else
        let target = nextState (playerState s);
            s1 = setPlayerState Loading s;
            s2 = clearToggleTimeout s1;
            (h, s3) = setTimeout target TOGGLE_DELAY_MS s2
        in s3\<lparr>toggleTimeoutRef := Some h\<rparr>)"

text \<open>The callback handed to \<open>setTimeout\<close>, with the \<open>nextState\<close> it captured.\<close>

definition toggleCallback :: "PlayerState \<Rightarrow> MusicPlayer \<Rightarrow> MusicPlayer" where
  "toggleCallback target s = (if \<not> isMountedRef s then s else setPlayerState target s)"

text \<open>\<open>track\<close> is what \<open>getElementById\<close> finds, with its bounding box.\<close>

definition handleSetVolumeFromClientX ::
    "jsnum \<Rightarrow> DOMRect option \<Rightarrow> MusicPlayer \<Rightarrow> MusicPlayer" where
  "handleSetVolumeFromClientX clientX track s =
     (case track of
        None \<Rightarrow> s
      | Some rect \<Rightarrow>
          let next = clamp01 (js_div (js_sub clientX (Fin (left rect))) (Fin (width rect)))
          in s\<lparr>volume := next\<rparr>)"

subsection \<open>Mounting, unmounting and the events of a run\<close>

text \<open>
  The three effects of the first commit, in source order: the mounted flag, the playing
  effect, the label interval.
\<close>

definition mount :: "MusicPlayer \<Rightarrow> MusicPlayer" where
  "mount s =
     (let s1 = s\<lparr>isMountedRef := True\<rparr>;
          s2 = playingEffect (playerState s1 = Playing) s1;
          (h, s3) = setInterval s2
      in s3\<lparr>labelInterval := Some h\<rparr>)"

text \<open>The three cleanups: flag and pending toggle, the frame request, the interval.\<close>

definition unmount :: "MusicPlayer \<Rightarrow> MusicPlayer" where
  "unmount s =
     (let s1 = clearToggleTimeout (s\<lparr>isMountedRef := False\<rparr>);
          s2 = playingCleanup (playerState s1 = Playing) s1
      in s2\<lparr>labelInterval := None\<rparr>)"

text \<open>The interval's callback; it runs while the interval is live.\<close>

definition labelSample :: "MusicPlayer \<Rightarrow> MusicPlayer" where
  "labelSample s =
     (if labelInterval s = None then s
      else s\<lparr>currentSeconds := js_mul (progress s) totalSeconds\<rparr>)"

text \<open>
  Time passes: the clock moves on by \<open>d\<close> milliseconds and the timeouts that are due
  by then run, oldest first.
\<close>

definition advance :: "nat \<Rightarrow> MusicPlayer \<Rightarrow> MusicPlayer" where
  "advance d s =
     (let t = clock s + d;
          due = filter (\<lambda>p. fst (snd p) \<le> t) (timeouts s);
          s1 = s\<lparr>clock := t, timeouts := filter (\<lambda>p. \<not> fst (snd p) \<le> t) (timeouts s)\<rparr>
      in fold (\<lambda>p. toggleCallback (snd (snd p))) due s1)"

text \<open>
  A frame: every request pending at its start runs \<open>tick\<close> with the frame's time stamp;
  a request made by a callback waits for the next frame.
\<close>

definition animationFrame :: "jsnum \<Rightarrow> MusicPlayer \<Rightarrow> MusicPlayer" where
  "animationFrame now s = fold (\<lambda>r. tick now) (frameRequests s) (s\<lparr>frameRequests := []\<rparr>)"

text \<open>
  What can happen to a mounted player. Clicks and pointer events reach the handlers
  only while the component is in the document; pointer coordinates, bounding boxes and
  frame time stamps are finite. A pointer move changes the volume only with the
  primary button held (\<open>(e.buttons & 1) === 1\<close>). \<open>Toggle\<close> is a click on the
  button; \<open>Toggles n\<close> is an event in which the toggle handler is called \<open>n\<close> times
  before React renders again, as when a script clicks the button repeatedly.
\<close>

datatype event =
    Toggle
  | Toggles nat
  | PointerDown real "DOMRect option"
  | PointerMove nat real "DOMRect option"
  | Advance nat
  | Frame real
  | Sample
  | Unmount

text \<open>The callbacks that an event runs.\<close>

fun dispatch :: "MusicPlayer \<Rightarrow> event \<Rightarrow> MusicPlayer" where
  "dispatch s Toggle = (if isMountedRef s then handleTogglePlayPause s else s)"
| "dispatch s (Toggles n) = (if isMountedRef s then (handleTogglePlayPause ^^ n) s else s)"
| "dispatch s (PointerDown clientX track) =
     (if isMountedRef s then handleSetVolumeFromClientX (Fin clientX) track s else s)"
| "dispatch s (PointerMove buttons clientX track) =
     (if isMountedRef s \<and> buttons mod 2 = 1
      then handleSetVolumeFromClientX (Fin clientX) track s else s)"
| "dispatch s (Advance d) = advance d s"
| "dispatch s (Frame now) = animationFrame (Fin now) s"
| "dispatch s Sample = labelSample s"
| "dispatch s Unmount = (if isMountedRef s then unmount s else s)"

text \<open>
  One event: its callbacks run, and if they have queued an update React renders
  again before the browser delivers the next event.
\<close>

definition step :: "MusicPlayer \<Rightarrow> event \<Rightarrow> MusicPlayer" where
  "step s e =
     (let s' = dispatch s e
      in if pendingState s' = pendingState s then s' else render s')"

definition run :: "MusicPlayer \<Rightarrow> event list \<Rightarrow> MusicPlayer" where
  "run s es = foldl step s es"

section \<open>The arithmetic of the specification\<close>

text \<open>
  The specification reduces ``modulo 1'' and ``modulo 360''. On the reals that is the
  remainder of the floored quotient, against which the remainder operator of the code
  (truncated quotient) is compared.
\<close>

definition real_mod :: "real \<Rightarrow> real \<Rightarrow> real" where
  "real_mod x m = x - m * of_int \<lfloor>x / m\<rfloor>"

text \<open>
  Reading a decimal numeral back: the value of a digit and of a string of digits. They
  serve to state that the digits written by \<open>String\<close> are those of the number.
\<close>

definition digit_value :: "char \<Rightarrow> nat" where
  "digit_value c = of_char c - 48"

definition decimal_value :: "string \<Rightarrow> nat" where
  "decimal_value cs = foldl (\<lambda>v c. 10 * v + digit_value c) 0 cs"

section \<open>Consistent states\<close>

text \<open>
  What holds in every state a mounted player can reach between two events: no update
  is waiting for a render; at most one toggle timeout is
  pending, it is the one the ref holds, it is due within the toggle delay and targets
  \<open>Playing\<close> or \<open>Paused\<close>; a timeout is pending exactly while a mounted player is
  loading; frames are requested only while playing, by the request held in \<open>rafId\<close>,
  and the last frame time is empty otherwise; the rotation angle and the progress
  fraction are in their ranges.
\<close>

definition consistent :: "MusicPlayer \<Rightarrow> bool" where
  "consistent s \<longleftrightarrow>
     pendingState s = None
     \<and> length (timeouts s) \<le> 1
     \<and> list_all (\<lambda>t. toggleTimeoutRef s = Some (fst t) \<and> fst t \<noteq> 0
                     \<and> clock s < fst (snd t) \<and> fst (snd t) \<le> clock s + TOGGLE_DELAY_MS
                     \<and> snd (snd t) \<noteq> Loading) (timeouts s)
     \<and> (timeouts s \<noteq> [] \<longrightarrow> playerState s = Loading \<and> isMountedRef s)
     \<and> (playerState s = Loading \<and> isMountedRef s \<longrightarrow> timeouts s \<noteq> [])
     \<and> (playerState s \<noteq> Playing \<longrightarrow> frameRequests s = [] \<and> lastFrameRef s = None)
     \<and> (playerState s = Playing \<longrightarrow>
          frameRequests s = (if isMountedRef s then [rafId s] else []))
     \<and> in_halfopen 0 360 (artworkRotation s)
     \<and> in_halfopen 0 1 (progress s)
     \<and> (case lastFrameRef s of None \<Rightarrow> True | Some l \<Rightarrow> (case l of Fin a \<Rightarrow> True | _ \<Rightarrow> False))"

section \<open>The remainder on non-negative values\<close>

lemma js_rem_nonneg:
  assumes "0 \<le> a" "0 < b"
  shows "js_rem (Fin a) (Fin b) = Fin (real_mod a b)"
  using assms by (simp add: js_trunc_def real_mod_def)

lemma real_mod_range:
  assumes "0 < m"
  shows "0 \<le> real_mod x m \<and> real_mod x m < m"
proof -
  define q where "q = real_of_int \<lfloor>x / m\<rfloor>"
  have "q \<le> x / m" and "x / m < q + 1"
    unfolding q_def by linarith+
  then have "q * m \<le> x" and "x < (q + 1) * m"
    using assms by (simp_all add: pos_le_divide_eq pos_divide_less_eq)
  then have "0 \<le> x - m * q" and "x - m * q < m"
    by (simp_all add: algebra_simps)
  then show ?thesis
    by (simp add: real_mod_def q_def)
qed

lemma real_mod_small:
  assumes "0 \<le> x" "x < m"
  shows "real_mod x m = x"
proof -
  have "0 \<le> x / m" "x / m < 1" using assms by simp_all
  then have "\<lfloor>x / m\<rfloor> = 0" by linarith
  then show ?thesis by (simp add: real_mod_def)
qed

lemma real_mod_of_nat:
  "real_mod (real n) (real m) = real (n mod m)"
proof -
  have "\<lfloor>real n / real m\<rfloor> = int (n div m)"
    by (simp add: floor_divide_of_nat_eq)
  then have "real_mod (real n) (real m) = real n - real m * real (n div m)"
    by (simp add: real_mod_def)
  also have "\<dots> = real (n mod m)"
    by (metis add_diff_cancel_left' mult_div_mod_eq of_nat_add of_nat_mult)
  finally show ?thesis .
qed

section \<open>Formatting a time\<close>

text \<open>The digits written for a number read back as that number.\<close>

lemma digit_value_char:
  assumes "d < 10"
  shows "digit_value (digit_char d) = d"
proof -
  have "d \<in> {0, 1, 2, 3, 4, 5, 6, 7, 8, 9}"
    using assms by auto
  then show ?thesis
    by (auto simp: digit_value_def digit_char_def)
qed

lemma decimal_value_digits: "decimal_value (digits_of n) = n"
proof (induction n rule: digits_of.induct)
  case (1 n)
  show ?case
  proof (cases "n < 10")
    case True
    then show ?thesis
      by (simp add: digits_of.simps [of n] decimal_value_def digit_value_char)
  next
    case False
    then have "decimal_value (digits_of (n div 10)) = n div 10"
      using 1 by simp
    then show ?thesis
      using False
      by (simp add: digits_of.simps [of n] decimal_value_def digit_value_char)
  qed
qed

lemma String_of_nat:
  assumes "n \<le> 2 ^ 53"
  shows "String (Fin (real n)) = Some (digits_of n)"
proof -
  have "real n \<le> real (2 ^ 53)"
    using assms by (simp only: of_nat_le_iff)
  then show ?thesis by simp
qed

lemma digits_of_two:
  assumes "s < 60"
  shows "padStart (digits_of s) 2 ''0'' = [digit_char (s div 10), digit_char (s mod 10)]"
proof (cases "s < 10")
  case True
  then show ?thesis
    by (simp add: digits_of.simps [of s] padStart_def digit_char_def)
next
  case False
  then have "s div 10 < 10" using assms by simp
  then have "digits_of s = [digit_char (s div 10), digit_char (s mod 10)]"
    using False by (simp add: digits_of.simps [of s] digits_of.simps [of "s div 10"])
  then show ?thesis
    by (simp add: padStart_def)
qed

lemma formatTime_finite:
  assumes "x < 2 ^ 53"
  shows "formatTime (Fin x) =
           Some (digits_of (nat (max 0 \<lfloor>x\<rfloor>) div 60) @ '':'' @
                 [digit_char (nat (max 0 \<lfloor>x\<rfloor>) mod 60 div 10),
                  digit_char (nat (max 0 \<lfloor>x\<rfloor>) mod 60 mod 10)])"
proof -
  define n where "n = nat (max 0 \<lfloor>x\<rfloor>)"
  have "\<lfloor>x\<rfloor> < 2 ^ 53"
    using assms by (simp add: floor_less_iff)
  then have "max 0 \<lfloor>x\<rfloor> < int (2 ^ 53)"
    by simp
  then have n: "n < 2 ^ 53"
    unfolding n_def by (simp only: nat_less_iff max.cobounded1)
  have clamped: "Math_max (Fin 0) (Math_floor (Fin x)) = Fin (real n)"
    by (simp add: n_def max_def)
  have "\<lfloor>real n / 60\<rfloor> = int (n div 60)"
    using floor_divide_of_nat_eq [of n 60, where ?'a = real] by simp
  then have minutes: "Math_floor (js_div (Fin (real n)) (Fin 60)) = Fin (real (n div 60))"
    by simp
  have "js_rem (Fin (real n)) (Fin 60) = Fin (real_mod (real n) 60)"
    by (intro js_rem_nonneg) simp_all
  then have seconds: "js_rem (Fin (real n)) (Fin 60) = Fin (real (n mod 60))"
    using real_mod_of_nat [of n 60] by simp
  have "n div 60 \<le> n" and "n mod 60 \<le> n"
    by simp_all
  then have b: "n div 60 \<le> 2 ^ 53" "n mod 60 \<le> 2 ^ 53"
    using n by linarith+
  have m: "String (Fin (real (n div 60))) = Some (digits_of (n div 60))"
    using b(1) by (rule String_of_nat)
  have s: "String (Fin (real (n mod 60))) = Some (digits_of (n mod 60))"
    using b(2) by (rule String_of_nat)
  have "formatTime (Fin x) =
          Some (digits_of (n div 60) @ '':'' @ padStart (digits_of (n mod 60)) 2 ''0'')"
    unfolding formatTime_def clamped Let_def minutes seconds m s by simp
  then show ?thesis
    unfolding n_def [symmetric] by (simp add: digits_of_two)
qed

text \<open>
  Claim C6. \<open>formatTime\<close> renders the floored seconds count, clamped at zero, as
  minutes, a colon, and the seconds in two digits with a leading zero where needed,
  for every finite input below \<open>2^53\<close>. In that range the floored count is an integer
  that the 64-bit format holds exactly, its remainder by 60 is exact, its quotient by
  60 is rounded by less than the sixtieth that separates it from the next integer,
  and both are written in their decimal digits. In particular \<open>formatTime(83) = "1:23"\<close>, \<open>formatTime(0) = "0:00"\<close>,
  \<open>formatTime(-5) = "0:00"\<close>, \<open>formatTime(225) = "3:45"\<close> and
  \<open>formatTime(83.9) = "1:23"\<close>.
\<close>

theorem formatTime_minutes_seconds:
  "(x < 2 ^ 53 \<longrightarrow>
      formatTime (Fin x) =
        Some (digits_of (nat (max 0 \<lfloor>x\<rfloor>) div 60) @ '':'' @
              [digit_char (nat (max 0 \<lfloor>x\<rfloor>) mod 60 div 10),
               digit_char (nat (max 0 \<lfloor>x\<rfloor>) mod 60 mod 10)]))
   \<and> formatTime (Fin 83) = Some ''1:23''
   \<and> formatTime (Fin 0) = Some ''0:00''
   \<and> formatTime (Fin (- 5)) = Some ''0:00''
   \<and> formatTime (Fin 225) = Some ''3:45''
   \<and> formatTime (Fin 83.9) = Some ''1:23''"
proof -
  have ex: "formatTime (Fin 83) = Some ''1:23''"
    "formatTime (Fin 0) = Some ''0:00''"
    "formatTime (Fin (- 5)) = Some ''0:00''"
    "formatTime (Fin 225) = Some ''3:45''"
    "formatTime (Fin 83.9) = Some ''1:23''"
    by (simp_all add: formatTime_def js_trunc_def padStart_def digits_of.simps digit_char_def)
  show ?thesis
    using formatTime_finite [of x] ex by blast
qed

text \<open>An hour, two minutes and five and a half seconds are written \<open>62:05\<close>.\<close>

theorem formatTime_minutes_seconds_witness:
  "(3725.5 :: real) < 2 ^ 53 \<and> formatTime (Fin 3725.5) = Some ''62:05''"
  using formatTime_minutes_seconds [of "3725.5"]
  by (simp add: digits_of.simps digit_char_def)

section \<open>The volume handler\<close>

lemma clamp01_Fin: "clamp01 (Fin v) = Fin (min 1 (max 0 v))"
  by (simp add: clamp01_def)

lemma handleSetVolume_pos_width:
  assumes "0 < width rect"
  shows "volume (handleSetVolumeFromClientX (Fin x) (Some rect) s)
           = Fin (min 1 (max 0 ((x - left rect) / width rect)))"
  using assms by (simp add: handleSetVolumeFromClientX_def js_sub_def clamp01_def)

lemma handleSetVolume_in_range:
  assumes "width rect \<noteq> 0 \<or> x \<noteq> left rect"
  shows "in_closed 0 1 (volume (handleSetVolumeFromClientX (Fin x) (Some rect) s))"
  using assms by (auto simp: handleSetVolumeFromClientX_def js_sub_def clamp01_def)

text \<open>
  Claim C7. The volume update maps the pointer's x-coordinate and the track's bounding
  box to \<open>clamp01((pointerX - trackLeft) / trackWidth)\<close>, which is the fraction
  itself where it lies between 0 and 1, and 0 or 1 beyond; for every track of
  positive width, a pointer on the track stores its fraction of the width, a pointer
  at the left edge gives 0, at the right edge 1, left of the track 0 and right of the
  track 1.
\<close>

theorem volume_fraction_of_pointer:
  assumes "0 < width rect"
  shows "volume (handleSetVolumeFromClientX (Fin x) (Some rect) s)
           = clamp01 (Fin ((x - left rect) / width rect))
         \<and> volume (handleSetVolumeFromClientX (Fin x) (Some rect) s)
             = Fin (min 1 (max 0 ((x - left rect) / width rect)))
         \<and> handleSetVolumeFromClientX (Fin x) (Some rect) s
             = s\<lparr>volume := Fin (min 1 (max 0 ((x - left rect) / width rect)))\<rparr>
         \<and> (left rect \<le> x \<and> x \<le> left rect + width rect \<longrightarrow>
              volume (handleSetVolumeFromClientX (Fin x) (Some rect) s)
                = Fin ((x - left rect) / width rect))
         \<and> (x = left rect \<longrightarrow>
              volume (handleSetVolumeFromClientX (Fin x) (Some rect) s) = Fin 0)
         \<and> (x = left rect + width rect \<longrightarrow>
              volume (handleSetVolumeFromClientX (Fin x) (Some rect) s) = Fin 1)
         \<and> (x < left rect \<longrightarrow>
              volume (handleSetVolumeFromClientX (Fin x) (Some rect) s) = Fin 0)
         \<and> (left rect + width rect < x \<longrightarrow>
              volume (handleSetVolumeFromClientX (Fin x) (Some rect) s) = Fin 1)"
proof -
  let ?v = "volume (handleSetVolumeFromClientX (Fin x) (Some rect) s)"
  have v: "?v = Fin (min 1 (max 0 ((x - left rect) / width rect)))"
    using assms by (rule handleSetVolume_pos_width)
  have a: "?v = clamp01 (Fin ((x - left rect) / width rect))"
    using v by (simp add: clamp01_Fin)
  have w: "handleSetVolumeFromClientX (Fin x) (Some rect) s
             = s\<lparr>volume := Fin (min 1 (max 0 ((x - left rect) / width rect)))\<rparr>"
    using assms by (simp add: handleSetVolumeFromClientX_def js_sub_def clamp01_def)
  have i: "?v = Fin ((x - left rect) / width rect)"
    if "left rect \<le> x \<and> x \<le> left rect + width rect"
  proof -
    have "0 \<le> (x - left rect) / width rect" "(x - left rect) / width rect \<le> 1"
      using that assms by simp_all
    then show ?thesis using v by (simp add: max_def min_def)
  qed
  have b: "?v = Fin 0" if "x = left rect"
    using v that by simp
  have c: "?v = Fin 1" if "x = left rect + width rect"
    using v that assms by simp
  have d: "?v = Fin 0" if "x < left rect"
  proof -
    have "(x - left rect) / width rect < 0"
      using that assms by (simp add: divide_neg_pos)
    then show ?thesis using v by (simp add: max_def)
  qed
  have e: "?v = Fin 1" if "left rect + width rect < x"
  proof -
    have "1 < (x - left rect) / width rect"
      using that assms by (simp add: pos_less_divide_eq)
    then show ?thesis using v by (simp add: max_def min_def)
  qed
  show ?thesis using a v w i b c d e by blast
qed

text \<open>
  On a track from 100 to 300, a pointer at 150 sets the volume to a quarter, a pointer
  at the right edge to 1, and a pointer at 40, left of the track, to 0.
\<close>

theorem volume_fraction_of_pointer_witness:
  "0 < width \<lparr>left = 100, width = 200\<rparr>
   \<and> left \<lparr>left = 100, width = 200\<rparr> \<le> (150 :: real)
   \<and> (150 :: real) \<le> left \<lparr>left = 100, width = 200\<rparr> + width \<lparr>left = 100, width = 200\<rparr>
   \<and> volume (handleSetVolumeFromClientX (Fin 150) (Some \<lparr>left = 100, width = 200\<rparr>) (mount initial))
       = Fin 0.25
   \<and> (300 :: real) = left \<lparr>left = 100, width = 200\<rparr> + width \<lparr>left = 100, width = 200\<rparr>
   \<and> volume (handleSetVolumeFromClientX (Fin 300) (Some \<lparr>left = 100, width = 200\<rparr>) (mount initial))
       = Fin 1
   \<and> (40 :: real) < left \<lparr>left = 100, width = 200\<rparr>
   \<and> volume (handleSetVolumeFromClientX (Fin 40) (Some \<lparr>left = 100, width = 200\<rparr>) (mount initial))
       = Fin 0"
  using volume_fraction_of_pointer [of "\<lparr>left = 100, width = 200\<rparr>" 150 "mount initial"]
    volume_fraction_of_pointer [of "\<lparr>left = 100, width = 200\<rparr>" 300 "mount initial"]
    volume_fraction_of_pointer [of "\<lparr>left = 100, width = 200\<rparr>" 40 "mount initial"]
  by simp

text \<open>
  Claim C8 says that the stored volume lies in \<open>[0, 1]\<close> for every pointer input and
  every bounding box, a track of width 0 included. On a track of width 0 with the
  pointer at its left edge the quotient is \<open>0 / 0\<close>, which \<open>clamp01\<close> passes through:
  the volume stored is \<open>NaN\<close>, outside the interval.
\<close>

theorem volume_nan_on_collapsed_track:
  "handleSetVolumeFromClientX (Fin 0) (Some \<lparr>left = 0, width = 0\<rparr>) (mount initial)
     = (mount initial)\<lparr>volume := NaN\<rparr>
   \<and> volume (step (mount initial) (PointerMove 1 0 (Some \<lparr>left = 0, width = 0\<rparr>))) = NaN
   \<and> \<not> in_closed 0 1
         (volume (step (mount initial) (PointerMove 1 0 (Some \<lparr>left = 0, width = 0\<rparr>))))"
  by (simp add: mount_def initial_def playingEffect_def setInterval_def step_def
      handleSetVolumeFromClientX_def js_sub_def clamp01_def)

section \<open>One invocation of the animation tick\<close>

text \<open>
  The elapsed time of a tick is the distance of its time stamp from the recorded one,
  floored at zero, and zero when nothing is recorded.
\<close>

lemma tick_delta:
  assumes "lastFrameRef s = Some (Fin (now - elapsed)) \<or> (lastFrameRef s = None \<and> elapsed = 0)"
  shows "Math_max (Fin 0) (js_sub (Fin now) (case lastFrameRef s of None \<Rightarrow> Fin now | Some l \<Rightarrow> l))
           = Fin (max 0 elapsed)"
  using assms by (auto simp: js_sub_def)

lemma tick_progress_eq:
  assumes "isMountedRef s"
    and "lastFrameRef s = Some (Fin (now - elapsed)) \<or> (lastFrameRef s = None \<and> elapsed = 0)"
    and "progress s = Fin p" and "0 \<le> p"
  shows "progress (tick (Fin now) s) = Fin (real_mod (p + max 0 elapsed / 225000) 1)"
proof -
  have "0 \<le> p + max 0 elapsed / 225000"
    using assms(4) by simp
  then have "js_rem (Fin (p + max 0 elapsed / 225000)) (Fin 1)
               = Fin (real_mod (p + max 0 elapsed / 225000) 1)"
    by (intro js_rem_nonneg) simp_all
  then show ?thesis
    using assms(1,3) tick_delta [OF assms(2)]
    by (simp add: tick_def requestAnimationFrame_def PROGRESS_DURATION_MS_def Let_def)
qed

lemma tick_rotation_eq:
  assumes "isMountedRef s"
    and "lastFrameRef s = Some (Fin (now - elapsed)) \<or> (lastFrameRef s = None \<and> elapsed = 0)"
    and "artworkRotation s = Fin r" and "0 \<le> r"
  shows "artworkRotation (tick (Fin now) s)
           = Fin (real_mod (r + max 0 elapsed * 360 / 20000) 360)"
proof -
  have "0 \<le> r + max 0 elapsed * 360 / 20000"
    using assms(4) by simp
  then have "js_rem (Fin (r + max 0 elapsed * 360 / 20000)) (Fin 360)
               = Fin (real_mod (r + max 0 elapsed * 360 / 20000) 360)"
    by (intro js_rem_nonneg) simp_all
  then show ?thesis
    using assms(1,3) tick_delta [OF assms(2)]
    by (simp add: tick_def requestAnimationFrame_def PROGRESS_DURATION_MS_def Let_def)
qed

lemma tick_frame:
  assumes "isMountedRef s"
  shows "playerState (tick now s) = playerState s"
    and "timeouts (tick now s) = timeouts s"
    and "toggleTimeoutRef (tick now s) = toggleTimeoutRef s"
    and "clock (tick now s) = clock s"
    and "isMountedRef (tick now s)"
    and "frameRequests (tick now s) = frameRequests s @ [Suc (frameIds s)]"
    and "rafId (tick now s) = Suc (frameIds s)"
    and "lastFrameRef (tick now s) = Some now"
  using assms by (simp_all add: tick_def Let_def requestAnimationFrame_def)

lemma in_halfopen_Fin:
  assumes "in_halfopen lo hi v"
  obtains a where "v = Fin a" "lo \<le> a" "a < hi"
  using assms by (cases v) simp_all

lemma last_frame_cases:
  assumes "case lastFrameRef s of None \<Rightarrow> True
           | Some l \<Rightarrow> (case l of Fin a \<Rightarrow> True | _ \<Rightarrow> False)"
  obtains elapsed where
    "lastFrameRef s = Some (Fin (now - elapsed)) \<or> (lastFrameRef s = None \<and> elapsed = 0)"
proof (cases "lastFrameRef s")
  case None
  then show ?thesis using that [of 0] by simp
next
  case (Some l)
  then obtain a where "l = Fin a"
    using assms by (cases l) simp_all
  then show ?thesis using that [of "now - a"] Some by simp
qed

lemma tick_in_range:
  assumes "isMountedRef s"
    and "in_halfopen 0 360 (artworkRotation s)" and "in_halfopen 0 1 (progress s)"
    and "case lastFrameRef s of None \<Rightarrow> True
         | Some l \<Rightarrow> (case l of Fin a \<Rightarrow> True | _ \<Rightarrow> False)"
  shows "in_halfopen 0 360 (artworkRotation (tick (Fin now) s))"
    and "in_halfopen 0 1 (progress (tick (Fin now) s))"
proof -
  obtain r where r: "artworkRotation s = Fin r" "0 \<le> r"
    using assms(2) by (rule in_halfopen_Fin)
  obtain p where p: "progress s = Fin p" "0 \<le> p"
    using assms(3) by (rule in_halfopen_Fin)
  obtain elapsed where
    e: "lastFrameRef s = Some (Fin (now - elapsed)) \<or> (lastFrameRef s = None \<and> elapsed = 0)"
    using assms(4) by (rule last_frame_cases)
  show "in_halfopen 0 360 (artworkRotation (tick (Fin now) s))"
    using tick_rotation_eq [OF assms(1) e r]
      real_mod_range [of 360 "r + max 0 elapsed * 360 / 20000"] by simp
  show "in_halfopen 0 1 (progress (tick (Fin now) s))"
    using tick_progress_eq [OF assms(1) e p]
      real_mod_range [of 1 "p + max 0 elapsed / 225000"] by simp
qed

lemma tick_first:
  assumes "isMountedRef s" and "lastFrameRef s = None"
    and "in_halfopen 0 360 (artworkRotation s)" and "in_halfopen 0 1 (progress s)"
  shows "artworkRotation (tick (Fin now) s) = artworkRotation s"
    and "progress (tick (Fin now) s) = progress s"
proof -
  obtain r where r: "artworkRotation s = Fin r" "0 \<le> r" "r < 360"
    using assms(3) by (rule in_halfopen_Fin)
  obtain p where p: "progress s = Fin p" "0 \<le> p" "p < 1"
    using assms(4) by (rule in_halfopen_Fin)
  have e: "lastFrameRef s = Some (Fin (now - 0)) \<or> (lastFrameRef s = None \<and> (0::real) = 0)"
    using assms(2) by simp
  show "artworkRotation (tick (Fin now) s) = artworkRotation s"
    using tick_rotation_eq [OF assms(1) e r(1,2)] r by (simp add: real_mod_small)
  show "progress (tick (Fin now) s) = progress s"
    using tick_progress_eq [OF assms(1) e p(1,2)] p by (simp add: real_mod_small)
qed

text \<open>
  Claim C2. For every elapsed duration \<open>elapsed \<ge> 0\<close> and every prior progress
  fraction in \<open>[0, 1)\<close>, one invocation of the tick of a mounted player sets the
  progress fraction to \<open>(old + elapsed / 225000) mod 1\<close>, and the result lies in
  \<open>[0, 1)\<close>. The elapsed duration is that between the recorded time stamp and the
  tick's, or zero on the first tick of a run.
\<close>

theorem tick_progress_mod_1:
  assumes "isMountedRef s"
    and "progress s = Fin old" and "0 \<le> old" and "old < 1"
    and "0 \<le> elapsed"
    and "lastFrameRef s = Some (Fin (now - elapsed)) \<or> (lastFrameRef s = None \<and> elapsed = 0)"
  shows "progress (tick (Fin now) s) = Fin (real_mod (old + elapsed / 225000) 1)
         \<and> in_halfopen 0 1 (progress (tick (Fin now) s))"
  using tick_progress_eq [OF assms(1) assms(6) assms(2) assms(3)] assms(5)
    real_mod_range [of 1 "old + elapsed / 225000"]
  by simp

text \<open>
  A tick 112500 ms after the recorded frame takes the progress from 0.5 to the end of
  the cycle, which is its start.
\<close>

theorem tick_progress_mod_1_witness:
  "isMountedRef ((mount initial)\<lparr>lastFrameRef := Some (Fin 1000), progress := Fin 0.5\<rparr>)
   \<and> progress (tick (Fin 113500)
         ((mount initial)\<lparr>lastFrameRef := Some (Fin 1000), progress := Fin 0.5\<rparr>))
       = Fin 0
   \<and> in_halfopen 0 1 (progress (tick (Fin 113500)
         ((mount initial)\<lparr>lastFrameRef := Some (Fin 1000), progress := Fin 0.5\<rparr>)))"
  using tick_progress_mod_1
    [of "(mount initial)\<lparr>lastFrameRef := Some (Fin 1000), progress := Fin 0.5\<rparr>"
      "0.5" 112500 113500]
  by (simp add: mount_def initial_def playingEffect_def setInterval_def real_mod_def)

text \<open>
  Claim C3. For every elapsed duration \<open>elapsed \<ge> 0\<close> and every prior rotation angle
  in \<open>[0, 360)\<close>, one invocation of the tick of a mounted player sets the rotation
  angle to \<open>(old + elapsed * 360 / 20000) mod 360\<close>, and the result lies in
  \<open>[0, 360)\<close>.
\<close>

theorem tick_rotation_mod_360:
  assumes "isMountedRef s"
    and "artworkRotation s = Fin old" and "0 \<le> old" and "old < 360"
    and "0 \<le> elapsed"
    and "lastFrameRef s = Some (Fin (now - elapsed)) \<or> (lastFrameRef s = None \<and> elapsed = 0)"
  shows "artworkRotation (tick (Fin now) s) = Fin (real_mod (old + elapsed * 360 / 20000) 360)
         \<and> in_halfopen 0 360 (artworkRotation (tick (Fin now) s))"
  using tick_rotation_eq [OF assms(1) assms(6) assms(2) assms(3)] assms(5)
    real_mod_range [of 360 "old + elapsed * 360 / 20000"]
  by simp

text \<open>A tick one second after the recorded frame turns the angle 350 by 18 degrees, to 8.\<close>

theorem tick_rotation_mod_360_witness:
  "isMountedRef ((mount initial)\<lparr>lastFrameRef := Some (Fin 1000), artworkRotation := Fin 350\<rparr>)
   \<and> artworkRotation (tick (Fin 2000)
         ((mount initial)\<lparr>lastFrameRef := Some (Fin 1000), artworkRotation := Fin 350\<rparr>))
       = Fin 8
   \<and> in_halfopen 0 360 (artworkRotation (tick (Fin 2000)
         ((mount initial)\<lparr>lastFrameRef := Some (Fin 1000), artworkRotation := Fin 350\<rparr>)))"
  using tick_rotation_mod_360
    [of "(mount initial)\<lparr>lastFrameRef := Some (Fin 1000), artworkRotation := Fin 350\<rparr>"
      350 1000 2000]
  by (simp add: mount_def initial_def playingEffect_def setInterval_def real_mod_def)

text \<open>
  Claim C10. For every pair of frame time stamps, also when the current one is earlier
  than the recorded one, the elapsed time applied by a tick is floored at zero: the
  rotation angle and the progress fraction advance by a non-negative amount, stay in
  their ranges, and do not change at all when the clock has run backwards.
\<close>

theorem tick_clamps_backward_clock:
  assumes "isMountedRef s"
    and "lastFrameRef s = Some (Fin prev)"
    and "artworkRotation s = Fin r" and "0 \<le> r" and "r < 360"
    and "progress s = Fin p" and "0 \<le> p" and "p < 1"
  shows "artworkRotation (tick (Fin now) s)
           = Fin (real_mod (r + max 0 (now - prev) * 360 / 20000) 360)
         \<and> progress (tick (Fin now) s) = Fin (real_mod (p + max 0 (now - prev) / 225000) 1)
         \<and> in_halfopen 0 360 (artworkRotation (tick (Fin now) s))
         \<and> in_halfopen 0 1 (progress (tick (Fin now) s))
         \<and> (now \<le> prev \<longrightarrow> artworkRotation (tick (Fin now) s) = artworkRotation s
                            \<and> progress (tick (Fin now) s) = progress s)"
proof -
  have l: "lastFrameRef s = Some (Fin (now - (now - prev)))
           \<or> (lastFrameRef s = None \<and> now - prev = 0)"
    using assms(2) by simp
  have rot: "artworkRotation (tick (Fin now) s)
               = Fin (real_mod (r + max 0 (now - prev) * 360 / 20000) 360)"
    using tick_rotation_eq [OF assms(1) l assms(3) assms(4)] .
  have prog: "progress (tick (Fin now) s)
                = Fin (real_mod (p + max 0 (now - prev) / 225000) 1)"
    using tick_progress_eq [OF assms(1) l assms(6) assms(7)] .
  have still: "artworkRotation (tick (Fin now) s) = artworkRotation s
              \<and> progress (tick (Fin now) s) = progress s" if "now \<le> prev"
  proof -
    have "max 0 (now - prev) = 0" using that by simp
    then show ?thesis
      using rot prog assms(3-8) by (simp add: real_mod_small)
  qed
  show ?thesis
    using rot prog still
      real_mod_range [of 360 "r + max 0 (now - prev) * 360 / 20000"]
      real_mod_range [of 1 "p + max 0 (now - prev) / 225000"]
    by simp
qed

text \<open>A frame stamped one second before the recorded one leaves both values alone.\<close>

theorem tick_clamps_backward_clock_witness:
  "isMountedRef ((mount initial)\<lparr>lastFrameRef := Some (Fin 5000)\<rparr>)
   \<and> lastFrameRef ((mount initial)\<lparr>lastFrameRef := Some (Fin 5000)\<rparr>) = Some (Fin 5000)
   \<and> artworkRotation (tick (Fin 4000) ((mount initial)\<lparr>lastFrameRef := Some (Fin 5000)\<rparr>))
       = Fin 0
   \<and> progress (tick (Fin 4000) ((mount initial)\<lparr>lastFrameRef := Some (Fin 5000)\<rparr>))
       = Fin 0.3688889"
  using tick_clamps_backward_clock
    [of "(mount initial)\<lparr>lastFrameRef := Some (Fin 5000)\<rparr>" 5000 0 "0.3688889" 4000]
  by (simp add: mount_def initial_def playingEffect_def setInterval_def real_mod_def)

section \<open>Reachable states are consistent\<close>

lemma consistentD:
  assumes "consistent s"
  shows "length (timeouts s) \<le> 1"
    and "list_all (\<lambda>t. toggleTimeoutRef s = Some (fst t) \<and> fst t \<noteq> 0
                     \<and> clock s < fst (snd t) \<and> fst (snd t) \<le> clock s + TOGGLE_DELAY_MS
                     \<and> snd (snd t) \<noteq> Loading) (timeouts s)"
    and "timeouts s \<noteq> [] \<Longrightarrow> playerState s = Loading \<and> isMountedRef s"
    and "playerState s = Loading \<Longrightarrow> isMountedRef s \<Longrightarrow> timeouts s \<noteq> []"
    and "playerState s \<noteq> Playing \<Longrightarrow> frameRequests s = [] \<and> lastFrameRef s = None"
    and "playerState s = Playing \<Longrightarrow>
           frameRequests s = (if isMountedRef s then [rafId s] else [])"
    and "in_halfopen 0 360 (artworkRotation s)"
    and "in_halfopen 0 1 (progress s)"
    and "case lastFrameRef s of None \<Rightarrow> True
         | Some l \<Rightarrow> (case l of Fin a \<Rightarrow> True | _ \<Rightarrow> False)"
    and "pendingState s = None"
  using assms unfolding consistent_def by blast+

lemma consistent_mount: "consistent (mount initial)"
  by (simp add: consistent_def mount_def initial_def playingEffect_def setInterval_def)

subsection \<open>Events that queue no update\<close>

lemma render_idle:
  assumes "pendingState s = None"
  shows "render s = s"
  using assms by (simp add: render_def)

lemma step_quiet:
  assumes "pendingState (dispatch s e) = pendingState s"
  shows "step s e = dispatch s e"
  using assms by (simp add: step_def)

lemma step_settled:
  assumes "pendingState s = None"
  shows "step s e = render (dispatch s e)"
proof (cases "pendingState (dispatch s e) = None")
  case True
  then show ?thesis
    using assms by (simp add: step_def render_idle)
next
  case False
  then show ?thesis
    using assms by (auto simp: step_def Let_def)
qed

lemma tick_pending: "pendingState (tick now s) = pendingState s"
  by (simp add: tick_def Let_def requestAnimationFrame_def)

lemma ticks_pending: "pendingState (fold (\<lambda>r. tick now) rs s) = pendingState s"
  by (induction rs arbitrary: s) (simp_all add: tick_pending)

lemma volume_pending:
  "pendingState (handleSetVolumeFromClientX x track s) = pendingState s"
  by (cases track) (simp_all add: handleSetVolumeFromClientX_def)

lemma unmount_pending: "pendingState (unmount s) = pendingState s"
  by (simp add: unmount_def clearToggleTimeout_def clearTimeout_def playingCleanup_def
      cancelAnimationFrame_def Let_def split: option.splits)

lemma step_pointer:
  "step s (PointerDown x track) = dispatch s (PointerDown x track)"
  "step s (PointerMove b x track) = dispatch s (PointerMove b x track)"
  by (rule step_quiet, simp add: volume_pending)+

lemma step_frame: "step s (Frame now) = animationFrame (Fin now) s"
proof -
  have "pendingState (dispatch s (Frame now)) = pendingState s"
    by (simp add: animationFrame_def ticks_pending)
  then show ?thesis
    using step_quiet [of s "Frame now"] by simp
qed

lemma step_sample: "step s Sample = labelSample s"
proof -
  have "pendingState (dispatch s Sample) = pendingState s"
    by (simp add: labelSample_def)
  then show ?thesis
    using step_quiet [of s Sample] by simp
qed

lemma step_unmount: "step s Unmount = (if isMountedRef s then unmount s else s)"
proof -
  have "pendingState (dispatch s Unmount) = pendingState s"
    by (simp add: unmount_pending)
  then show ?thesis
    using step_quiet [of s Unmount] by simp
qed

lemma consistent_volume_update: "consistent (s\<lparr>volume := v\<rparr>) = consistent s"
  by (simp add: consistent_def)

lemma consistent_volume:
  "consistent s \<Longrightarrow> consistent (handleSetVolumeFromClientX x track s)"
  by (cases track) (simp_all add: handleSetVolumeFromClientX_def consistent_volume_update)

lemma consistent_currentSeconds_update:
  "consistent (s\<lparr>currentSeconds := v\<rparr>) = consistent s"
  by (simp add: consistent_def)

lemma consistent_labelSample: "consistent s \<Longrightarrow> consistent (labelSample s)"
  by (simp add: labelSample_def consistent_currentSeconds_update)

lemma frames_cancelled:
  assumes "consistent s"
  shows "filter (\<lambda>r. r \<noteq> rafId s) (frameRequests s) = []"
proof (cases "playerState s = Playing")
  case True
  then show ?thesis using consistentD(6) [OF assms] by simp
next
  case False
  then show ?thesis using consistentD(5) [OF assms] by simp
qed

subsection \<open>The toggle handler, called once or several times before the render\<close>

lemma toggle_guarded:
  assumes "playerState s = Loading"
  shows "(handleTogglePlayPause ^^ n) s = s"
  using assms by (induction n) (simp_all add: handleTogglePlayPause_def)

lemma toggle_calls:
  assumes "timeouts s = []" "playerState s \<noteq> Loading"
  shows "(handleTogglePlayPause ^^ Suc k) s
           = s\<lparr>pendingState := Some Loading,
                timerIds := Suc (timerIds s + k),
                timeouts := [(Suc (timerIds s + k), clock s + TOGGLE_DELAY_MS,
                              nextState (playerState s))],
                toggleTimeoutRef := Some (Suc (timerIds s + k))\<rparr>"
proof (induction k)
  case 0
  show ?case
    using assms
    by (simp add: handleTogglePlayPause_def setPlayerState_def Let_def
        clearToggleTimeout_def clearTimeout_def setTimeout_def split: option.splits)
next
  case (Suc k)
  let ?c = "s\<lparr>pendingState := Some Loading,
                timerIds := Suc (timerIds s + k),
                timeouts := [(Suc (timerIds s + k), clock s + TOGGLE_DELAY_MS,
                              nextState (playerState s))],
                toggleTimeoutRef := Some (Suc (timerIds s + k))\<rparr>"
  have "(handleTogglePlayPause ^^ Suc (Suc k)) s
          = handleTogglePlayPause ((handleTogglePlayPause ^^ Suc k) s)"
    by (simp only: funpow.simps o_apply)
  also have "\<dots> = handleTogglePlayPause ?c"
    by (simp only: Suc)
  also have "\<dots> = s\<lparr>pendingState := Some Loading,
                timerIds := Suc (timerIds s + Suc k),
                timeouts := [(Suc (timerIds s + Suc k), clock s + TOGGLE_DELAY_MS,
                              nextState (playerState s))],
                toggleTimeoutRef := Some (Suc (timerIds s + Suc k))\<rparr>"
    using assms(2)
    by (simp add: handleTogglePlayPause_def setPlayerState_def Let_def
        clearToggleTimeout_def clearTimeout_def setTimeout_def)
  finally show ?case .
qed

lemma render_Loading:
  assumes "consistent s" "pendingState s' = Some Loading"
    and "playerState s' = playerState s" "frameRequests s' = frameRequests s"
    and "rafId s' = rafId s" "lastFrameRef s' = lastFrameRef s"
  shows "render s'
           = s'\<lparr>playerState := Loading, pendingState := None,
                 frameRequests := [], lastFrameRef := None\<rparr>"
proof (cases "playerState s = Playing")
  case True
  then show ?thesis
    using frames_cancelled [OF assms(1)] assms(2-6)
    by (simp add: render_def playingEffect_def playingCleanup_def cancelAnimationFrame_def)
next
  case False
  then have "frameRequests s' = []" "lastFrameRef s' = None"
    using consistentD(5) [OF assms(1)] assms(4,6) by simp_all
  then show ?thesis
    using False assms(2,3) by (simp add: render_def)
qed

lemma toggles_step:
  assumes "consistent s" "isMountedRef s" "playerState s \<noteq> Loading"
  shows "step s (Toggles (Suc k))
           = s\<lparr>playerState := Loading, frameRequests := [], lastFrameRef := None,
                timerIds := Suc (timerIds s + k),
                timeouts := [(Suc (timerIds s + k), clock s + TOGGLE_DELAY_MS,
                              nextState (playerState s))],
                toggleTimeoutRef := Some (Suc (timerIds s + k))\<rparr>"
proof -
  let ?c = "s\<lparr>pendingState := Some Loading,
                timerIds := Suc (timerIds s + k),
                timeouts := [(Suc (timerIds s + k), clock s + TOGGLE_DELAY_MS,
                              nextState (playerState s))],
                toggleTimeoutRef := Some (Suc (timerIds s + k))\<rparr>"
  have t: "timeouts s = []"
    using consistentD(3) [OF assms(1)] assms(3) by blast
  have p: "pendingState s = None"
    using consistentD(10) [OF assms(1)] .
  have c: "(handleTogglePlayPause ^^ Suc k) s = ?c"
    using t assms(3) by (rule toggle_calls)
  have "dispatch s (Toggles (Suc k)) = ?c"
    using assms(2) c by (simp only: dispatch.simps if_True)
  then have "step s (Toggles (Suc k)) = render ?c"
    using step_settled [OF p, of "Toggles (Suc k)"] by (simp only:)
  also have "\<dots> = ?c\<lparr>playerState := Loading, pendingState := None,
                       frameRequests := [], lastFrameRef := None\<rparr>"
    by (rule render_Loading [OF assms(1)]) simp_all
  finally show ?thesis
    using p by simp
qed

lemma toggle_step:
  assumes "consistent s" "isMountedRef s" "playerState s \<noteq> Loading"
  shows "step s Toggle
           = s\<lparr>playerState := Loading, frameRequests := [], lastFrameRef := None,
                timerIds := Suc (timerIds s),
                timeouts := [(Suc (timerIds s), clock s + TOGGLE_DELAY_MS,
                              nextState (playerState s))],
                toggleTimeoutRef := Some (Suc (timerIds s))\<rparr>"
proof -
  have "dispatch s Toggle = dispatch s (Toggles (Suc 0))"
    by simp
  then have "step s Toggle = step s (Toggles (Suc 0))"
    by (simp add: step_def)
  then show ?thesis
    using toggles_step [OF assms, of 0] by simp
qed

lemma toggle_step_noop:
  assumes "playerState s = Loading \<or> \<not> isMountedRef s"
  shows "step s Toggle = s" and "step s (Toggles n) = s"
proof -
  have "dispatch s Toggle = s"
    using assms by (auto simp: handleTogglePlayPause_def)
  then show "step s Toggle = s"
    by (simp add: step_def)
  have "dispatch s (Toggles n) = s"
    using assms by (auto simp: toggle_guarded)
  then show "step s (Toggles n) = s"
    by (simp add: step_def)
qed

lemma toggles_step_none: "step s (Toggles 0) = s"
  by (simp add: step_def)

lemma consistent_toggled:
  assumes "consistent s" "isMountedRef s" "playerState s \<noteq> Loading"
  shows "consistent (s\<lparr>playerState := Loading, frameRequests := [], lastFrameRef := None,
                timerIds := Suc (timerIds s + k),
                timeouts := [(Suc (timerIds s + k), clock s + TOGGLE_DELAY_MS,
                              nextState (playerState s))],
                toggleTimeoutRef := Some (Suc (timerIds s + k))\<rparr>)"
  unfolding consistent_def
  using assms(2) consistentD(7,8,10) [OF assms(1)]
  by (simp add: nextState_def TOGGLE_DELAY_MS_def)

lemma consistent_toggles:
  assumes "consistent s"
  shows "consistent (step s (Toggles n))"
proof (cases "playerState s = Loading \<or> \<not> isMountedRef s")
  case True
  then show ?thesis using assms by (simp add: toggle_step_noop)
next
  case False
  show ?thesis
  proof (cases n)
    case 0
    then show ?thesis using assms by (simp add: toggles_step_none)
  next
    case (Suc k)
    then show ?thesis
      using False toggles_step [OF assms, of k] consistent_toggled [OF assms, of k]
      by simp
  qed
qed

lemma consistent_toggle:
  assumes "consistent s"
  shows "consistent (step s Toggle)"
proof (cases "playerState s = Loading \<or> \<not> isMountedRef s")
  case True
  then show ?thesis using assms by (simp add: toggle_step_noop)
next
  case False
  then show ?thesis
    using toggle_step [OF assms] consistent_toggled [OF assms, of 0] by simp
qed

subsection \<open>Time, frames and teardown\<close>

lemma advance_idle:
  assumes "timeouts s = []"
  shows "advance d s = s\<lparr>clock := clock s + d\<rparr>"
  using assms by (simp add: advance_def)

lemma advance_early:
  assumes "timeouts s = [(h, due, target)]" "clock s + d < due"
  shows "advance d s = s\<lparr>clock := clock s + d\<rparr>"
  using assms by (simp add: advance_def)

lemma advance_due:
  assumes "timeouts s = [(h, due, target)]" "due \<le> clock s + d"
  shows "advance d s = toggleCallback target (s\<lparr>clock := clock s + d, timeouts := []\<rparr>)"
  using assms by (simp add: advance_def)

lemma advance_step_idle:
  assumes "timeouts s = []"
  shows "step s (Advance d) = s\<lparr>clock := clock s + d\<rparr>"
  using assms by (simp add: step_def advance_idle)

lemma advance_step_early:
  assumes "timeouts s = [(h, due, target)]" "clock s + d < due"
  shows "step s (Advance d) = s\<lparr>clock := clock s + d\<rparr>"
  using assms by (simp add: step_def advance_early)

lemma advance_step_due:
  assumes "timeouts s = [(h, due, target)]" "due \<le> clock s + d"
    and "pendingState s = None" "isMountedRef s" "playerState s = Loading"
    and "frameRequests s = []" "target \<noteq> Loading"
  shows "step s (Advance d)
           = (if target = Playing
              then s\<lparr>clock := clock s + d, timeouts := [], playerState := Playing,
                     frameIds := Suc (frameIds s),
                     frameRequests := [Suc (frameIds s)], rafId := Suc (frameIds s)\<rparr>
              else s\<lparr>clock := clock s + d, timeouts := [], playerState := target\<rparr>)"
proof -
  have "step s (Advance d)
          = render (toggleCallback target (s\<lparr>clock := clock s + d, timeouts := []\<rparr>))"
    using step_settled [OF assms(3), of "Advance d"] advance_due [OF assms(1,2)] by simp
  then show ?thesis
    using assms(3-7)
    by (cases target)
      (simp_all add: toggleCallback_def setPlayerState_def render_def playingEffect_def
        playingCleanup_def requestAnimationFrame_def)
qed

lemma pending_single:
  assumes "consistent s" "timeouts s \<noteq> []"
  obtains h due target where "timeouts s = [(h, due, target)]"
    and "toggleTimeoutRef s = Some h" and "h \<noteq> 0"
    and "clock s < due" and "due \<le> clock s + TOGGLE_DELAY_MS" and "target \<noteq> Loading"
    and "playerState s = Loading" and "isMountedRef s"
    and "frameRequests s = []" and "lastFrameRef s = None"
proof -
  obtain t ts where c: "timeouts s = t # ts"
    using assms(2) by (cases "timeouts s") auto
  then have ts: "ts = []"
    using consistentD(1) [OF assms(1)] by simp
  obtain h due target where t: "t = (h, due, target)"
    by (cases t) auto
  have one: "timeouts s = [(h, due, target)]"
    using c ts t by simp
  have l: "playerState s = Loading" "isMountedRef s"
    using consistentD(3) [OF assms(1) assms(2)] by simp_all
  then have f: "frameRequests s = []" "lastFrameRef s = None"
    using consistentD(5) [OF assms(1)] by simp_all
  show ?thesis
    using that [OF one] consistentD(2) [OF assms(1)] one l f by simp
qed

lemma consistent_advance:
  assumes "consistent s"
  shows "consistent (step s (Advance d))"
proof (cases "timeouts s = []")
  case True
  have "\<not> (playerState s = Loading \<and> isMountedRef s)"
    using True consistentD(4) [OF assms] by blast
  then have "consistent (s\<lparr>clock := clock s + d\<rparr>)"
    unfolding consistent_def
    using True consistentD(5-10) [OF assms] by simp
  then show ?thesis
    using True by (simp add: advance_step_idle)
next
  case False
  from assms False obtain h due target where one: "timeouts s = [(h, due, target)]"
    and p: "toggleTimeoutRef s = Some h" "h \<noteq> 0"
      "clock s < due" "due \<le> clock s + TOGGLE_DELAY_MS" "target \<noteq> Loading"
      "playerState s = Loading" "isMountedRef s"
      "frameRequests s = []" "lastFrameRef s = None"
    by (rule pending_single)
  have q: "pendingState s = None"
    using consistentD(10) [OF assms] .
  show ?thesis
  proof (cases "due \<le> clock s + d")
    case True
    have eq: "step s (Advance d) = (if target = Playing
              then s\<lparr>clock := clock s + d, timeouts := [], playerState := Playing,
                     frameIds := Suc (frameIds s),
                     frameRequests := [Suc (frameIds s)], rafId := Suc (frameIds s)\<rparr>
              else s\<lparr>clock := clock s + d, timeouts := [], playerState := target\<rparr>)"
      using one True q p(7,6,8,5) by (rule advance_step_due)
    show ?thesis
      unfolding eq consistent_def
      using p q consistentD(7,8) [OF assms] by simp
  next
    case False
    then have eq: "step s (Advance d) = s\<lparr>clock := clock s + d\<rparr>"
      using one by (simp add: advance_step_early)
    show ?thesis
      unfolding eq consistent_def
      using False one p q consistentD(7,8) [OF assms] by simp
  qed
qed

lemma clearToggleTimeout_single:
  assumes "length (timeouts s) \<le> 1"
    and "list_all (\<lambda>t. toggleTimeoutRef s = Some (fst t) \<and> fst t \<noteq> 0) (timeouts s)"
  shows "clearToggleTimeout s = s\<lparr>timeouts := []\<rparr>"
proof (cases "timeouts s")
  case Nil
  then show ?thesis
    by (simp add: clearToggleTimeout_def clearTimeout_def split: option.splits)
next
  case (Cons t ts)
  then have "ts = []" "toggleTimeoutRef s = Some (fst t)" "fst t \<noteq> 0"
    using assms by simp_all
  then show ?thesis
    using Cons by (simp add: clearToggleTimeout_def clearTimeout_def)
qed

lemma unmount_consistent:
  assumes "consistent s"
  shows "unmount s = s\<lparr>isMountedRef := False, timeouts := [], frameRequests := [],
                          labelInterval := None\<rparr>"
proof -
  have "list_all (\<lambda>t. toggleTimeoutRef s = Some (fst t) \<and> fst t \<noteq> 0) (timeouts s)"
    using consistentD(2) [OF assms] by (simp add: list_all_iff)
  then have c: "clearToggleTimeout (s\<lparr>isMountedRef := False\<rparr>)
             = s\<lparr>isMountedRef := False, timeouts := []\<rparr>"
    using consistentD(1) [OF assms] by (subst clearToggleTimeout_single) simp_all
  have g: "playerState s \<noteq> Playing \<Longrightarrow> frameRequests s = []"
    using consistentD(5) [OF assms] by simp
  show ?thesis
    unfolding unmount_def c Let_def
    using frames_cancelled [OF assms] g
    by (simp add: playingCleanup_def cancelAnimationFrame_def)
qed

lemma consistent_unmount:
  assumes "consistent s"
  shows "consistent (unmount s)"
  unfolding unmount_consistent [OF assms] consistent_def
  using consistentD(5,7,8,9,10) [OF assms] by simp

lemma animationFrame_idle:
  assumes "frameRequests s = []"
  shows "animationFrame now s = s"
  using assms by (simp add: animationFrame_def)

lemma animationFrame_single:
  assumes "frameRequests s = [h]"
  shows "animationFrame now s = tick now (s\<lparr>frameRequests := []\<rparr>)"
  using assms by (simp add: animationFrame_def)

lemma frame_cases:
  assumes "consistent s"
  obtains "frameRequests s = []"
  | "frameRequests s = [rafId s]" "playerState s = Playing" "isMountedRef s"
    "timeouts s = []"
proof (cases "playerState s = Playing \<and> isMountedRef s")
  case True
  then have "frameRequests s = [rafId s]"
    using consistentD(6) [OF assms] by simp
  moreover have "timeouts s = []"
    using consistentD(3) [OF assms] True by auto
  ultimately show ?thesis using that(2) True by simp
next
  case False
  then have "frameRequests s = []"
    using consistentD(5,6) [OF assms] by (cases "playerState s = Playing") simp_all
  then show ?thesis by (rule that(1))
qed

lemma consistent_animationFrame:
  assumes "consistent s"
  shows "consistent (animationFrame (Fin now) s)"
  using assms
proof (cases rule: frame_cases)
  case 1
  then show ?thesis using assms by (simp add: animationFrame_idle)
next
  case 2
  let ?s = "s\<lparr>frameRequests := []\<rparr>"
  have m: "isMountedRef ?s" using 2 by simp
  have rng: "in_halfopen 0 360 (artworkRotation (tick (Fin now) ?s))"
    "in_halfopen 0 1 (progress (tick (Fin now) ?s))"
    using tick_in_range [OF m, of now] consistentD(7,8,9) [OF assms] by simp_all
  have q: "pendingState (tick (Fin now) ?s) = None"
    using consistentD(10) [OF assms] by (simp add: tick_pending)
  show ?thesis
    unfolding animationFrame_single [OF 2(1)] consistent_def
    using 2 rng q tick_frame [OF m, of "Fin now"] by simp
qed

lemma consistent_step:
  assumes "consistent s"
  shows "consistent (step s e)"
proof (cases e)
  case Toggle
  then show ?thesis using assms by (simp add: consistent_toggle)
next
  case (Toggles n)
  then show ?thesis using assms by (simp add: consistent_toggles)
next
  case (PointerDown x track)
  then show ?thesis using assms by (simp add: step_pointer consistent_volume)
next
  case (PointerMove b x track)
  then show ?thesis using assms by (simp add: step_pointer consistent_volume)
next
  case (Advance d)
  then show ?thesis using assms by (simp add: consistent_advance)
next
  case (Frame now)
  then show ?thesis using assms by (simp add: step_frame consistent_animationFrame)
next
  case Sample
  then show ?thesis using assms by (simp add: step_sample consistent_labelSample)
next
  case Unmount
  then show ?thesis using assms by (simp add: step_unmount consistent_unmount)
qed

lemma consistent_run:
  assumes "consistent s"
  shows "consistent (run s es)"
  using assms unfolding run_def
  by (induction es arbitrary: s) (simp_all add: consistent_step)

lemma consistent_reachable: "consistent (run (mount initial) es)"
  using consistent_mount by (rule consistent_run)

lemma pending_bound: "length (timeouts (run (mount initial) es)) \<le> 1"
  using consistentD(1) [OF consistent_reachable] .

section \<open>Concrete runs\<close>

lemma run_append: "run s (es @ es') = run (run s es) es'"
  by (simp add: run_def)

lemma run_snoc: "run s (es @ [e]) = step (run s es) e"
  by (simp add: run_def)

lemma mounted_state:
  "mount initial =
     \<lparr> playerState = Paused, pendingState = None, volume = Fin 0.65,
       toggleTimeoutRef = None,
       isMountedRef = True, artworkRotation = Fin 0, progress = Fin 0.3688889,
       lastFrameRef = None, currentSeconds = Fin (0.3688889 * 225),
       rafId = 0, clock = 0, timeouts = [], timerIds = 1,
       frameRequests = [], frameIds = 0, labelInterval = Some 1 \<rparr>"
  by (simp add: mount_def initial_def playingEffect_def setInterval_def totalSeconds_def
      PROGRESS_DURATION_MS_def)

lemma loading_state:
  "run (mount initial)
       [Toggle] =
     \<lparr> playerState = Loading, pendingState = None, volume = Fin 0.65,
       toggleTimeoutRef = Some 2,
       isMountedRef = True, artworkRotation = Fin 0, progress = Fin 0.3688889,
       lastFrameRef = None, currentSeconds = Fin (0.3688889 * 225),
       rafId = 0, clock = 0, timeouts = [(2, 500, Playing)], timerIds = 2,
       frameRequests = [], frameIds = 0, labelInterval = Some 1 \<rparr>"
proof -
  let ?p = "mount initial"
  have c: "consistent ?p"
    by (rule consistent_mount)
  have r: "run (mount initial) [Toggle] = step ?p (Toggle)"
    by (simp add: run_def)
  have "isMountedRef ?p" "playerState ?p \<noteq> Loading"
    by (simp_all add: mounted_state)
  then have "step ?p Toggle
               = ?p\<lparr>playerState := Loading, frameRequests := [], lastFrameRef := None,
                    timerIds := Suc (timerIds ?p),
                    timeouts := [(Suc (timerIds ?p), clock ?p + TOGGLE_DELAY_MS,
                                  nextState (playerState ?p))],
                    toggleTimeoutRef := Some (Suc (timerIds ?p))\<rparr>"
    using c by (intro toggle_step)
  then show ?thesis
    unfolding r by (simp add: mounted_state TOGGLE_DELAY_MS_def nextState_def)
qed

lemma playing_state:
  "run (mount initial)
       [Toggle, Advance 500] =
     \<lparr> playerState = Playing, pendingState = None, volume = Fin 0.65,
       toggleTimeoutRef = Some 2,
       isMountedRef = True, artworkRotation = Fin 0, progress = Fin 0.3688889,
       lastFrameRef = None, currentSeconds = Fin (0.3688889 * 225),
       rafId = 1, clock = 500, timeouts = [], timerIds = 2,
       frameRequests = [1], frameIds = 1, labelInterval = Some 1 \<rparr>"
proof -
  let ?p = "run (mount initial) [Toggle]"
  have c: "consistent ?p"
    by (rule consistent_reachable)
  have r: "run (mount initial) [Toggle, Advance 500] = step ?p (Advance 500)"
    by (simp add: run_def)
  have "step ?p (Advance 500)
          = (if Playing = Playing
             then ?p\<lparr>clock := clock ?p + 500, timeouts := [], playerState := Playing,
                    frameIds := Suc (frameIds ?p),
                    frameRequests := [Suc (frameIds ?p)], rafId := Suc (frameIds ?p)\<rparr>
             else ?p\<lparr>clock := clock ?p + 500, timeouts := [], playerState := Playing\<rparr>)"
    by (rule advance_step_due [of _ 2 500]) (simp_all add: loading_state)
  then show ?thesis
    unfolding r loading_state by simp
qed

lemma pressed_state:
  "run (mount initial)
       [Toggle, Advance 500, Toggle] =
     \<lparr> playerState = Loading, pendingState = None, volume = Fin 0.65,
       toggleTimeoutRef = Some 3,
       isMountedRef = True, artworkRotation = Fin 0, progress = Fin 0.3688889,
       lastFrameRef = None, currentSeconds = Fin (0.3688889 * 225),
       rafId = 1, clock = 500, timeouts = [(3, 1000, Paused)], timerIds = 3,
       frameRequests = [], frameIds = 1, labelInterval = Some 1 \<rparr>"
proof -
  let ?p = "run (mount initial) [Toggle, Advance 500]"
  have c: "consistent ?p"
    by (rule consistent_reachable)
  have r: "run (mount initial) [Toggle, Advance 500, Toggle] = step ?p (Toggle)"
    by (simp add: run_def)
  have "isMountedRef ?p" "playerState ?p \<noteq> Loading"
    by (simp_all add: playing_state)
  then have "step ?p Toggle
               = ?p\<lparr>playerState := Loading, frameRequests := [], lastFrameRef := None,
                    timerIds := Suc (timerIds ?p),
                    timeouts := [(Suc (timerIds ?p), clock ?p + TOGGLE_DELAY_MS,
                                  nextState (playerState ?p))],
                    toggleTimeoutRef := Some (Suc (timerIds ?p))\<rparr>"
    using c by (intro toggle_step)
  then show ?thesis
    unfolding r playing_state by (simp add: TOGGLE_DELAY_MS_def nextState_def)
qed

lemma waiting_state:
  "run (mount initial)
       [Toggle, Advance 500, Toggle, Advance 300] =
     \<lparr> playerState = Loading, pendingState = None, volume = Fin 0.65,
       toggleTimeoutRef = Some 3,
       isMountedRef = True, artworkRotation = Fin 0, progress = Fin 0.3688889,
       lastFrameRef = None, currentSeconds = Fin (0.3688889 * 225),
       rafId = 1, clock = 800, timeouts = [(3, 1000, Paused)], timerIds = 3,
       frameRequests = [], frameIds = 1, labelInterval = Some 1 \<rparr>"
proof -
  let ?p = "run (mount initial) [Toggle, Advance 500, Toggle]"
  have c: "consistent ?p"
    by (rule consistent_reachable)
  have r: "run (mount initial) [Toggle, Advance 500, Toggle, Advance 300] = step ?p (Advance 300)"
    by (simp add: run_def)
  have "step ?p (Advance 300) = ?p\<lparr>clock := clock ?p + 300\<rparr>"
    by (rule advance_step_early [of _ 3 1000 Paused]) (simp_all add: pressed_state)
  then show ?thesis
    unfolding r pressed_state by simp
qed

lemma started_state:
  "run (mount initial)
       [Toggle, Advance 500, Frame 1000] =
     \<lparr> playerState = Playing, pendingState = None, volume = Fin 0.65,
       toggleTimeoutRef = Some 2,
       isMountedRef = True, artworkRotation = Fin 0, progress = Fin 0.3688889,
       lastFrameRef = Some (Fin 1000), currentSeconds = Fin (0.3688889 * 225),
       rafId = 2, clock = 500, timeouts = [], timerIds = 2,
       frameRequests = [2], frameIds = 2, labelInterval = Some 1 \<rparr>"
proof -
  let ?p = "run (mount initial) [Toggle, Advance 500]"
  have c: "consistent ?p"
    by (rule consistent_reachable)
  have r: "run (mount initial) [Toggle, Advance 500, Frame 1000] = step ?p (Frame 1000)"
    by (simp add: run_def)
  have "step ?p (Frame 1000) = tick (Fin 1000) (?p\<lparr>frameRequests := []\<rparr>)"
    unfolding step_frame by (rule animationFrame_single [of _ "rafId ?p"]) (simp add: playing_state)
  then show ?thesis
    unfolding r playing_state
    by (simp add: tick_def requestAnimationFrame_def js_sub_def js_trunc_def
        PROGRESS_DURATION_MS_def)
qed

lemma played_state:
  "run (mount initial)
       [Toggle, Advance 500, Frame 1000, Frame 2000] =
     \<lparr> playerState = Playing, pendingState = None, volume = Fin 0.65,
       toggleTimeoutRef = Some 2,
       isMountedRef = True, artworkRotation = Fin 18, progress = Fin (33600001 / 90000000),
       lastFrameRef = Some (Fin 2000), currentSeconds = Fin (0.3688889 * 225),
       rafId = 3, clock = 500, timeouts = [], timerIds = 2,
       frameRequests = [3], frameIds = 3, labelInterval = Some 1 \<rparr>"
proof -
  let ?p = "run (mount initial) [Toggle, Advance 500, Frame 1000]"
  have c: "consistent ?p"
    by (rule consistent_reachable)
  have r: "run (mount initial) [Toggle, Advance 500, Frame 1000, Frame 2000] = step ?p (Frame 2000)"
    by (simp add: run_def)
  have "step ?p (Frame 2000) = tick (Fin 2000) (?p\<lparr>frameRequests := []\<rparr>)"
    unfolding step_frame by (rule animationFrame_single [of _ "rafId ?p"]) (simp add: started_state)
  then show ?thesis
    unfolding r started_state
    by (simp add: tick_def requestAnimationFrame_def js_sub_def js_trunc_def
        PROGRESS_DURATION_MS_def)
qed

lemma pausing_state:
  "run (mount initial)
       [Toggle, Advance 500, Frame 1000, Frame 2000, Toggle] =
     \<lparr> playerState = Loading, pendingState = None, volume = Fin 0.65,
       toggleTimeoutRef = Some 3,
       isMountedRef = True, artworkRotation = Fin 18, progress = Fin (33600001 / 90000000),
       lastFrameRef = None, currentSeconds = Fin (0.3688889 * 225),
       rafId = 3, clock = 500, timeouts = [(3, 1000, Paused)], timerIds = 3,
       frameRequests = [], frameIds = 3, labelInterval = Some 1 \<rparr>"
proof -
  let ?p = "run (mount initial) [Toggle, Advance 500, Frame 1000, Frame 2000]"
  have c: "consistent ?p"
    by (rule consistent_reachable)
  have r: "run (mount initial) [Toggle, Advance 500, Frame 1000, Frame 2000, Toggle] = step ?p (Toggle)"
    by (simp add: run_def)
  have "isMountedRef ?p" "playerState ?p \<noteq> Loading"
    by (simp_all add: played_state)
  then have "step ?p Toggle
               = ?p\<lparr>playerState := Loading, frameRequests := [], lastFrameRef := None,
                    timerIds := Suc (timerIds ?p),
                    timeouts := [(Suc (timerIds ?p), clock ?p + TOGGLE_DELAY_MS,
                                  nextState (playerState ?p))],
                    toggleTimeoutRef := Some (Suc (timerIds ?p))\<rparr>"
    using c by (intro toggle_step)
  then show ?thesis
    unfolding r played_state by (simp add: TOGGLE_DELAY_MS_def nextState_def)
qed

lemma paused_state:
  "run (mount initial)
       [Toggle, Advance 500, Frame 1000, Frame 2000, Toggle, Advance 500] =
     \<lparr> playerState = Paused, pendingState = None, volume = Fin 0.65,
       toggleTimeoutRef = Some 3,
       isMountedRef = True, artworkRotation = Fin 18, progress = Fin (33600001 / 90000000),
       lastFrameRef = None, currentSeconds = Fin (0.3688889 * 225),
       rafId = 3, clock = 1000, timeouts = [], timerIds = 3,
       frameRequests = [], frameIds = 3, labelInterval = Some 1 \<rparr>"
proof -
  let ?p = "run (mount initial) [Toggle, Advance 500, Frame 1000, Frame 2000, Toggle]"
  have c: "consistent ?p"
    by (rule consistent_reachable)
  have r: "run (mount initial) [Toggle, Advance 500, Frame 1000, Frame 2000, Toggle, Advance 500] = step ?p (Advance 500)"
    by (simp add: run_def)
  have "step ?p (Advance 500)
          = (if Paused = Playing
             then ?p\<lparr>clock := clock ?p + 500, timeouts := [], playerState := Playing,
                    frameIds := Suc (frameIds ?p),
                    frameRequests := [Suc (frameIds ?p)], rafId := Suc (frameIds ?p)\<rparr>
             else ?p\<lparr>clock := clock ?p + 500, timeouts := [], playerState := Paused\<rparr>)"
    by (rule advance_step_due [of _ 3 1000]) (simp_all add: pausing_state)
  then show ?thesis
    unfolding r pausing_state by simp
qed

lemma resuming_state:
  "run (mount initial)
       [Toggle, Advance 500, Frame 1000, Frame 2000, Toggle, Advance 500, Toggle] =
     \<lparr> playerState = Loading, pendingState = None, volume = Fin 0.65,
       toggleTimeoutRef = Some 4,
       isMountedRef = True, artworkRotation = Fin 18, progress = Fin (33600001 / 90000000),
       lastFrameRef = None, currentSeconds = Fin (0.3688889 * 225),
       rafId = 3, clock = 1000, timeouts = [(4, 1500, Playing)], timerIds = 4,
       frameRequests = [], frameIds = 3, labelInterval = Some 1 \<rparr>"
proof -
  let ?p = "run (mount initial) [Toggle, Advance 500, Frame 1000, Frame 2000, Toggle, Advance 500]"
  have c: "consistent ?p"
    by (rule consistent_reachable)
  have r: "run (mount initial) [Toggle, Advance 500, Frame 1000, Frame 2000, Toggle, Advance 500, Toggle] = step ?p (Toggle)"
    by (simp add: run_def)
  have "isMountedRef ?p" "playerState ?p \<noteq> Loading"
    by (simp_all add: paused_state)
  then have "step ?p Toggle
               = ?p\<lparr>playerState := Loading, frameRequests := [], lastFrameRef := None,
                    timerIds := Suc (timerIds ?p),
                    timeouts := [(Suc (timerIds ?p), clock ?p + TOGGLE_DELAY_MS,
                                  nextState (playerState ?p))],
                    toggleTimeoutRef := Some (Suc (timerIds ?p))\<rparr>"
    using c by (intro toggle_step)
  then show ?thesis
    unfolding r paused_state by (simp add: TOGGLE_DELAY_MS_def nextState_def)
qed

lemma torn_down_state:
  "run (mount initial)
       [Toggle, Advance 500, Frame 1000, Frame 2000, Unmount] =
     \<lparr> playerState = Playing, pendingState = None, volume = Fin 0.65,
       toggleTimeoutRef = Some 2,
       isMountedRef = False, artworkRotation = Fin 18, progress = Fin (33600001 / 90000000),
       lastFrameRef = Some (Fin 2000), currentSeconds = Fin (0.3688889 * 225),
       rafId = 3, clock = 500, timeouts = [], timerIds = 2,
       frameRequests = [], frameIds = 3, labelInterval = None \<rparr>"
proof -
  let ?p = "run (mount initial) [Toggle, Advance 500, Frame 1000, Frame 2000]"
  have c: "consistent ?p"
    by (rule consistent_reachable)
  have r: "run (mount initial) [Toggle, Advance 500, Frame 1000, Frame 2000, Unmount] = step ?p (Unmount)"
    by (simp add: run_def)
  have "step ?p Unmount = ?p\<lparr>isMountedRef := False, timeouts := [],
                                  frameRequests := [], labelInterval := None\<rparr>"
    using unmount_consistent [OF c] by (simp add: step_unmount played_state)
  then show ?thesis
    unfolding r played_state by simp
qed

lemma resumed_state:
  "run (mount initial)
       [Toggle, Advance 500, Frame 1000, Frame 2000, Toggle, Advance 500, Toggle, Advance 500] =
     \<lparr> playerState = Playing, pendingState = None, volume = Fin 0.65,
       toggleTimeoutRef = Some 4,
       isMountedRef = True, artworkRotation = Fin 18, progress = Fin (33600001 / 90000000),
       lastFrameRef = None, currentSeconds = Fin (0.3688889 * 225),
       rafId = 4, clock = 1500, timeouts = [], timerIds = 4,
       frameRequests = [4], frameIds = 4, labelInterval = Some 1 \<rparr>"
proof -
  let ?p = "run (mount initial) [Toggle, Advance 500, Frame 1000, Frame 2000, Toggle, Advance 500, Toggle]"
  have r: "run (mount initial)
             [Toggle, Advance 500, Frame 1000, Frame 2000, Toggle, Advance 500, Toggle, Advance 500]
           = step ?p (Advance 500)"
    by (simp add: run_def)
  have "step ?p (Advance 500)
          = (if Playing = Playing
             then ?p\<lparr>clock := clock ?p + 500, timeouts := [], playerState := Playing,
                    frameIds := Suc (frameIds ?p),
                    frameRequests := [Suc (frameIds ?p)], rafId := Suc (frameIds ?p)\<rparr>
             else ?p\<lparr>clock := clock ?p + 500, timeouts := [], playerState := Playing\<rparr>)"
    by (rule advance_step_due [of _ 4 1500]) (simp_all add: resuming_state)
  then show ?thesis
    unfolding r resuming_state by simp
qed

section \<open>The toggle\<close>

text \<open>
  Claim C4. A toggle request that arrives while the player is loading is a no-op: the
  state remains \<open>Loading\<close>, no new delayed transition is scheduled, and no pending
  transition is altered; the whole state is as before.
\<close>

theorem toggle_while_loading_is_noop:
  assumes "playerState s = Loading"
  shows "handleTogglePlayPause s = s
         \<and> step s Toggle = s
         \<and> playerState (step s Toggle) = Loading
         \<and> timeouts (step s Toggle) = timeouts s"
  using assms toggle_step_noop(1) [of s] by (simp add: handleTogglePlayPause_def)

text \<open>A second click right after the first leaves the first click's timeout in place.\<close>

theorem toggle_while_loading_is_noop_witness:
  "playerState (run (mount initial) [Toggle]) = Loading
   \<and> step (run (mount initial) [Toggle]) Toggle = run (mount initial) [Toggle]
   \<and> timeouts (step (run (mount initial) [Toggle]) Toggle) = [(2, 500, Playing)]"
  using toggle_while_loading_is_noop [of "run (mount initial) [Toggle]"]
  unfolding loading_state
  by simp

lemma toggle_then_wait:
  assumes "consistent s" "isMountedRef s" "playerState s \<noteq> Loading" "d < TOGGLE_DELAY_MS"
  shows "run s [Toggle, Advance d]
           = s\<lparr>playerState := Loading, frameRequests := [], lastFrameRef := None,
                timerIds := Suc (timerIds s),
                timeouts := [(Suc (timerIds s), clock s + TOGGLE_DELAY_MS,
                              nextState (playerState s))],
                toggleTimeoutRef := Some (Suc (timerIds s)),
                clock := clock s + d\<rparr>"
proof -
  let ?a = "step s Toggle"
  have a: "?a = s\<lparr>playerState := Loading, frameRequests := [], lastFrameRef := None,
                timerIds := Suc (timerIds s),
                timeouts := [(Suc (timerIds s), clock s + TOGGLE_DELAY_MS,
                              nextState (playerState s))],
                toggleTimeoutRef := Some (Suc (timerIds s))\<rparr>"
    using assms(1-3) by (rule toggle_step)
  have one: "timeouts ?a = [(Suc (timerIds s), clock s + TOGGLE_DELAY_MS,
                             nextState (playerState s))]"
    unfolding a by simp
  have early: "clock ?a + d < clock s + TOGGLE_DELAY_MS"
    unfolding a using assms(4) by simp
  have "run s [Toggle, Advance d] = step ?a (Advance d)"
    by (simp add: run_def)
  also have "\<dots> = ?a\<lparr>clock := clock ?a + d\<rparr>"
    using one early by (rule advance_step_early)
  finally show ?thesis
    unfolding a by simp
qed

lemma fired:
  assumes "consistent s" "isMountedRef s" "playerState s \<noteq> Loading"
    and "w = s\<lparr>playerState := Loading, frameRequests := [], lastFrameRef := None,
                timerIds := h, timeouts := [(h, clock s + TOGGLE_DELAY_MS,
                                             nextState (playerState s))],
                toggleTimeoutRef := Some h, clock := clock s + d\<rparr>"
    and "TOGGLE_DELAY_MS \<le> d + e"
  shows "playerState (step w (Advance e)) = nextState (playerState s)"
    and "timeouts (step w (Advance e)) = []"
    and "playerState (step (step w (Advance e)) (Advance e')) = nextState (playerState s)"
proof -
  have one: "timeouts w = [(h, clock s + TOGGLE_DELAY_MS, nextState (playerState s))]"
    unfolding assms(4) by simp
  have due: "clock s + TOGGLE_DELAY_MS \<le> clock w + e"
    unfolding assms(4) using assms(5) by simp
  have l: "pendingState w = None" "isMountedRef w" "playerState w = Loading"
    "frameRequests w = []"
    unfolding assms(4) using assms(2) consistentD(10) [OF assms(1)] by simp_all
  have t: "nextState (playerState s) \<noteq> Loading"
    by (simp add: nextState_def)
  have f: "step w (Advance e)
      = (if nextState (playerState s) = Playing
         then w\<lparr>clock := clock w + e, timeouts := [], playerState := Playing,
                frameIds := Suc (frameIds w),
                frameRequests := [Suc (frameIds w)], rafId := Suc (frameIds w)\<rparr>
         else w\<lparr>clock := clock w + e, timeouts := [],
                playerState := nextState (playerState s)\<rparr>)"
    using one due l t by (rule advance_step_due)
  show g: "playerState (step w (Advance e)) = nextState (playerState s)"
    unfolding f by simp
  show n: "timeouts (step w (Advance e)) = []"
    unfolding f by simp
  show "playerState (step (step w (Advance e)) (Advance e')) = nextState (playerState s)"
    using g by (simp add: advance_step_idle [OF n])
qed

text \<open>
  Claim C1, as amended. Toggle request A is issued in a reachable, mounted state that
  is not loading, and toggle request B before A's 500 ms delay has elapsed.

  If B comes in a later event, after React has rendered the \<open>Loading\<close> state that A
  set, B is ignored: the one pending transition is still the one A scheduled, due
  500 ms after A and targeting A's target state; once A's delay has elapsed exactly
  that transition has fired, the player is in A's target state, nothing is pending
  and the passing of more time changes nothing.

  If B is called before that render, in the same event as A, it passes the guard, which
  still reads the state A saw: it cancels the transition A scheduled and schedules
  its own, held by the ref; the one pending transition is B's, it targets the target
  B computed, which is A's, and when the delay has elapsed it has fired and nothing
  is pending.

  At most one delayed transition is pending in any reachable state, and after either
  call of the handler.
\<close>

theorem toggle_twice:
  assumes "s = run (mount initial) es"
    and "isMountedRef s" and "playerState s \<noteq> Loading"
    and "d < TOGGLE_DELAY_MS" and "TOGGLE_DELAY_MS \<le> d + e"
  shows "timeouts (run s [Toggle, Advance d])
           = [(Suc (timerIds s), clock s + TOGGLE_DELAY_MS, nextState (playerState s))]
         \<and> run s [Toggle, Advance d, Toggle] = run s [Toggle, Advance d]
         \<and> playerState (run s [Toggle, Advance d, Toggle]) = Loading
         \<and> playerState (run s [Toggle, Advance d, Toggle, Advance e]) = nextState (playerState s)
         \<and> timeouts (run s [Toggle, Advance d, Toggle, Advance e]) = []
         \<and> playerState (run s [Toggle, Advance d, Toggle, Advance e, Advance e'])
             = nextState (playerState s)
         \<and> timeouts (handleTogglePlayPause s)
             = [(Suc (timerIds s), clock s + TOGGLE_DELAY_MS, nextState (playerState s))]
         \<and> timeouts (handleTogglePlayPause (handleTogglePlayPause s))
             = [(Suc (Suc (timerIds s)), clock s + TOGGLE_DELAY_MS,
                 nextState (playerState s))]
         \<and> toggleTimeoutRef (handleTogglePlayPause (handleTogglePlayPause s))
             = Some (Suc (Suc (timerIds s)))
         \<and> render (handleTogglePlayPause (handleTogglePlayPause s)) = run s [Toggles 2]
         \<and> timeouts (run s [Toggles 2])
             = [(Suc (Suc (timerIds s)), clock s + TOGGLE_DELAY_MS,
                 nextState (playerState s))]
         \<and> playerState (run s [Toggles 2]) = Loading
         \<and> playerState (run s [Toggles 2, Advance d]) = Loading
         \<and> playerState (run s [Toggles 2, Advance d, Advance e]) = nextState (playerState s)
         \<and> timeouts (run s [Toggles 2, Advance d, Advance e]) = []
         \<and> (\<forall>es'. length (timeouts (run (mount initial) es')) \<le> 1)"
proof -
  let ?w = "run s [Toggle, Advance d]"
  have c: "consistent s"
    unfolding assms(1) by (rule consistent_reachable)
  have p: "pendingState s = None" and t0: "timeouts s = []"
    using consistentD(10) [OF c] consistentD(3) [OF c] assms(3) by blast+
  have w: "?w = s\<lparr>playerState := Loading, frameRequests := [], lastFrameRef := None,
                timerIds := Suc (timerIds s),
                timeouts := [(Suc (timerIds s), clock s + TOGGLE_DELAY_MS,
                              nextState (playerState s))],
                toggleTimeoutRef := Some (Suc (timerIds s)),
                clock := clock s + d\<rparr>"
    using c assms(2-4) by (rule toggle_then_wait)
  have one: "timeouts ?w
               = [(Suc (timerIds s), clock s + TOGGLE_DELAY_MS, nextState (playerState s))]"
    unfolding w by simp
  have l: "playerState ?w = Loading"
    unfolding w by simp
  have b: "run s [Toggle, Advance d, Toggle] = ?w"
  proof -
    have "run s [Toggle, Advance d, Toggle] = step ?w Toggle"
      by (simp add: run_def)
    then show ?thesis using l by (simp add: toggle_step_noop)
  qed
  have r1: "run s [Toggle, Advance d, Toggle, Advance e] = step ?w (Advance e)"
    using b run_snoc [of s "[Toggle, Advance d, Toggle]" "Advance e"] by simp
  have r2: "run s [Toggle, Advance d, Toggle, Advance e, Advance e']
              = step (step ?w (Advance e)) (Advance e')"
    using r1 run_snoc [of s "[Toggle, Advance d, Toggle, Advance e]" "Advance e'"] by simp
  have g: "playerState (run s [Toggle, Advance d, Toggle, Advance e]) = nextState (playerState s)"
    "timeouts (run s [Toggle, Advance d, Toggle, Advance e]) = []"
    "playerState (run s [Toggle, Advance d, Toggle, Advance e, Advance e'])
       = nextState (playerState s)"
    unfolding r1 r2 using fired [OF c assms(2,3) w assms(5)] by simp_all
  have h1: "handleTogglePlayPause s
              = s\<lparr>pendingState := Some Loading,
                   timerIds := Suc (timerIds s),
                   timeouts := [(Suc (timerIds s), clock s + TOGGLE_DELAY_MS,
                                 nextState (playerState s))],
                   toggleTimeoutRef := Some (Suc (timerIds s))\<rparr>"
    using toggle_calls [OF t0 assms(3), of 0] by simp
  have h2: "handleTogglePlayPause (handleTogglePlayPause s)
              = s\<lparr>pendingState := Some Loading,
                   timerIds := Suc (Suc (timerIds s)),
                   timeouts := [(Suc (Suc (timerIds s)), clock s + TOGGLE_DELAY_MS,
                                 nextState (playerState s))],
                   toggleTimeoutRef := Some (Suc (Suc (timerIds s)))\<rparr>"
    using toggle_calls [OF t0 assms(3), of "Suc 0"] by simp
  have two: "(2 :: nat) = Suc (Suc 0)"
    by simp
  have "dispatch s (Toggles 2) = handleTogglePlayPause (handleTogglePlayPause s)"
    using assms(2) by (simp add: two)
  then have r3: "render (handleTogglePlayPause (handleTogglePlayPause s)) = run s [Toggles 2]"
    using step_settled [OF p, of "Toggles 2"] by (simp add: run_def)
  have v: "run s [Toggles 2, Advance d]
             = s\<lparr>playerState := Loading, frameRequests := [], lastFrameRef := None,
                  timerIds := Suc (Suc (timerIds s)),
                  timeouts := [(Suc (Suc (timerIds s)), clock s + TOGGLE_DELAY_MS,
                                nextState (playerState s))],
                  toggleTimeoutRef := Some (Suc (Suc (timerIds s))),
                  clock := clock s + d\<rparr>"
  proof -
    let ?b = "step s (Toggles 2)"
    have q: "?b = s\<lparr>playerState := Loading, frameRequests := [], lastFrameRef := None,
                  timerIds := Suc (Suc (timerIds s)),
                  timeouts := [(Suc (Suc (timerIds s)), clock s + TOGGLE_DELAY_MS,
                                nextState (playerState s))],
                  toggleTimeoutRef := Some (Suc (Suc (timerIds s)))\<rparr>"
      using toggles_step [OF c assms(2,3), of "Suc 0"] by (simp add: two)
    have o: "timeouts ?b = [(Suc (Suc (timerIds s)), clock s + TOGGLE_DELAY_MS,
                             nextState (playerState s))]"
      unfolding q by simp
    have y: "clock ?b + d < clock s + TOGGLE_DELAY_MS"
      unfolding q using assms(4) by simp
    have "run s [Toggles 2, Advance d] = step ?b (Advance d)"
      by (simp add: run_def)
    also have "\<dots> = ?b\<lparr>clock := clock ?b + d\<rparr>"
      using o y by (rule advance_step_early)
    finally show ?thesis
      unfolding q by simp
  qed
  have r4: "run s [Toggles 2] = step s (Toggles 2)"
    by (simp add: run_def)
  have k: "timeouts (run s [Toggles 2])
             = [(Suc (Suc (timerIds s)), clock s + TOGGLE_DELAY_MS, nextState (playerState s))]"
    "playerState (run s [Toggles 2]) = Loading"
    unfolding r4 using toggles_step [OF c assms(2,3), of "Suc 0"] by (simp_all add: two)
  have r5: "run s [Toggles 2, Advance d, Advance e]
              = step (run s [Toggles 2, Advance d]) (Advance e)"
    using run_snoc [of s "[Toggles 2, Advance d]" "Advance e"] by simp
  have m: "playerState (run s [Toggles 2, Advance d, Advance e]) = nextState (playerState s)"
    "timeouts (run s [Toggles 2, Advance d, Advance e]) = []"
    unfolding r5 using fired(1,2) [OF c assms(2,3) v assms(5)] by simp_all
  have n: "playerState (run s [Toggles 2, Advance d]) = Loading"
    unfolding v by simp
  show ?thesis
    using one b l g h1 h2 r3 k n m pending_bound by simp
qed

text \<open>
  Two clicks 300 ms apart on the paused player: it plays 500 ms after the first. Two
  calls in one event: the second call's timeout, handle 3, replaces the first call's,
  handle 2, and the player plays when it has fired.
\<close>

theorem toggle_twice_witness:
  "isMountedRef (mount initial)
   \<and> playerState (mount initial) \<noteq> Loading
   \<and> (300 :: nat) < TOGGLE_DELAY_MS \<and> TOGGLE_DELAY_MS \<le> 300 + 200
   \<and> timeouts (run (mount initial) [Toggle, Advance 300, Toggle]) = [(2, 500, Playing)]
   \<and> playerState (run (mount initial) [Toggle, Advance 300, Toggle, Advance 200]) = Playing
   \<and> timeouts (handleTogglePlayPause (mount initial)) = [(2, 500, Playing)]
   \<and> timeouts (handleTogglePlayPause (handleTogglePlayPause (mount initial)))
       = [(3, 500, Playing)]
   \<and> timeouts (run (mount initial) [Toggles 2]) = [(3, 500, Playing)]
   \<and> playerState (run (mount initial) [Toggles 2, Advance 300, Advance 200]) = Playing"
proof -
  have s: "mount initial = run (mount initial) []"
    by (simp add: run_def)
  have m: "isMountedRef (mount initial)" "playerState (mount initial) = Paused"
    "timerIds (mount initial) = 1" "clock (mount initial) = 0"
    by (simp_all add: mounted_state)
  show ?thesis
    using toggle_twice [OF s, of 300 200] m
    by (simp add: TOGGLE_DELAY_MS_def nextState_def)
qed

text \<open>
  Claim C1 as stated has the last toggle win whenever B comes before A's delay has
  elapsed. Two clicks on a playing player, A at clock 500 and B at clock 800: B changes
  nothing; the transition pending after B is the one A scheduled, handle 3, due at 1000
  and not 500 ms after B; at clock 1000 it has fired, the player is paused and nothing
  is pending.
\<close>

theorem last_toggle_wins_counterexample:
  "run (mount initial) [Toggle, Advance 500, Toggle, Advance 300, Toggle]
     = run (mount initial) [Toggle, Advance 500, Toggle, Advance 300]
   \<and> timeouts (run (mount initial) [Toggle, Advance 500, Toggle, Advance 300, Toggle])
       = [(3, 1000, Paused)]
   \<and> clock (run (mount initial) [Toggle, Advance 500, Toggle, Advance 300, Toggle]) = 800
   \<and> playerState (run (mount initial) [Toggle, Advance 500, Toggle, Advance 300,
                                        Toggle, Advance 200]) = Paused
   \<and> timeouts (run (mount initial) [Toggle, Advance 500, Toggle, Advance 300,
                                      Toggle, Advance 200]) = []
   \<and> clock (run (mount initial) [Toggle, Advance 500, Toggle, Advance 300,
                                   Toggle, Advance 200]) = 1000"
proof -
  let ?w = "run (mount initial) [Toggle, Advance 500, Toggle, Advance 300]"
  have l: "playerState ?w = Loading"
    by (simp add: waiting_state)
  have b: "run (mount initial) [Toggle, Advance 500, Toggle, Advance 300, Toggle] = ?w"
    using run_snoc [of "mount initial" "[Toggle, Advance 500, Toggle, Advance 300]" Toggle]
      toggle_step_noop(1) [of ?w] l by simp
  have "run (mount initial) [Toggle, Advance 500, Toggle, Advance 300, Toggle, Advance 200]
          = step ?w (Advance 200)"
    using run_snoc [of "mount initial" "[Toggle, Advance 500, Toggle, Advance 300, Toggle]"
        "Advance 200"] b by simp
  also have "\<dots> = (if Paused = Playing
             then ?w\<lparr>clock := clock ?w + 200, timeouts := [], playerState := Playing,
                    frameIds := Suc (frameIds ?w),
                    frameRequests := [Suc (frameIds ?w)], rafId := Suc (frameIds ?w)\<rparr>
             else ?w\<lparr>clock := clock ?w + 200, timeouts := [], playerState := Paused\<rparr>)"
    by (rule advance_step_due [of _ 3 1000]) (simp_all add: waiting_state)
  finally have f: "run (mount initial)
      [Toggle, Advance 500, Toggle, Advance 300, Toggle, Advance 200]
        = ?w\<lparr>clock := clock ?w + 200, timeouts := [], playerState := Paused\<rparr>"
    by simp
  show ?thesis
    unfolding f b by (simp add: waiting_state)
qed

section \<open>Pausing and resuming\<close>

lemma playerState_kept:
  "playerState (handleSetVolumeFromClientX x track s) = playerState s"
  "playerState (labelSample s) = playerState s"
  by (cases track) (simp_all add: handleSetVolumeFromClientX_def labelSample_def)

lemma values_of_volume:
  "artworkRotation (handleSetVolumeFromClientX x track s) = artworkRotation s"
  "progress (handleSetVolumeFromClientX x track s) = progress s"
  "isMountedRef (handleSetVolumeFromClientX x track s) = isMountedRef s"
  "timeouts (handleSetVolumeFromClientX x track s) = timeouts s"
  by (cases track; simp add: handleSetVolumeFromClientX_def)+

text \<open>
  What one event can do to a player that is not playing: it leaves the rotation angle
  and the progress fraction alone, and if it starts playback, the player is mounted
  and no frame time is recorded.
\<close>

lemma quiet_step:
  assumes "consistent s" "playerState s \<noteq> Playing"
  shows "artworkRotation (step s e) = artworkRotation s \<and> progress (step s e) = progress s
         \<and> (playerState (step s e) = Playing \<longrightarrow>
              isMountedRef (step s e) \<and> lastFrameRef (step s e) = None)"
proof -
  have same: ?thesis if "step s e = s"
    using that assms(2) by simp
  have f: "frameRequests s = []"
    using consistentD(5) [OF assms] by simp
  show ?thesis
  proof (cases e)
    case Toggle
    show ?thesis
    proof (cases "playerState s = Loading \<or> \<not> isMountedRef s")
      case True
      then show ?thesis using Toggle same by (simp add: toggle_step_noop)
    next
      case False
      then show ?thesis using Toggle toggle_step [OF assms(1)] by simp
    qed
  next
    case (Toggles n)
    show ?thesis
    proof (cases "playerState s = Loading \<or> \<not> isMountedRef s")
      case True
      then show ?thesis using Toggles same by (simp add: toggle_step_noop)
    next
      case False
      show ?thesis
      proof (cases n)
        case 0
        then show ?thesis using Toggles same by (simp add: toggles_step_none)
      next
        case (Suc k)
        then show ?thesis using Toggles False toggles_step [OF assms(1), of k] by simp
      qed
    qed
  next
    case (PointerDown x track)
    then show ?thesis
      using assms(2) by (simp add: step_pointer values_of_volume playerState_kept)
  next
    case (PointerMove b x track)
    then show ?thesis
      using assms(2) by (simp add: step_pointer values_of_volume playerState_kept)
  next
    case (Advance d)
    show ?thesis
    proof (cases "timeouts s = []")
      case True
      then show ?thesis using Advance assms(2) by (simp add: advance_step_idle)
    next
      case False
      from assms(1) False obtain h due target where one: "timeouts s = [(h, due, target)]"
        and p: "toggleTimeoutRef s = Some h" "h \<noteq> 0"
          "clock s < due" "due \<le> clock s + TOGGLE_DELAY_MS" "target \<noteq> Loading"
          "playerState s = Loading" "isMountedRef s"
          "frameRequests s = []" "lastFrameRef s = None"
        by (rule pending_single)
      have q: "pendingState s = None"
        using consistentD(10) [OF assms(1)] .
      show ?thesis
      proof (cases "due \<le> clock s + d")
        case True
        then show ?thesis
          using Advance p advance_step_due [OF one True q p(7,6,8,5)] by simp
      next
        case False
        then show ?thesis
          using Advance one assms(2) by (simp add: advance_step_early)
      qed
    qed
  next
    case (Frame now)
    then show ?thesis
      using f same by (simp add: step_frame animationFrame_idle)
  next
    case Sample
    then show ?thesis
      using assms(2) by (simp add: step_sample labelSample_def)
  next
    case Unmount
    then show ?thesis
      using assms(2) by (simp add: step_unmount unmount_consistent [OF assms(1)])
  qed
qed

lemma first_frame_of_run:
  assumes "consistent s" "playerState s = Playing" "isMountedRef s" "lastFrameRef s = None"
  shows "artworkRotation (step s (Frame now)) = artworkRotation s"
    and "progress (step s (Frame now)) = progress s"
    and "lastFrameRef (step s (Frame now)) = Some (Fin now)"
proof -
  let ?s = "s\<lparr>frameRequests := []\<rparr>"
  have f: "frameRequests s = [rafId s]"
    using consistentD(6) [OF assms(1,2)] assms(3) by simp
  have eq: "step s (Frame now) = tick (Fin now) ?s"
    using animationFrame_single [OF f] by (simp add: step_frame)
  have m: "isMountedRef ?s" "lastFrameRef ?s = None"
    "in_halfopen 0 360 (artworkRotation ?s)" "in_halfopen 0 1 (progress ?s)"
    using assms(3,4) consistentD(7,8) [OF assms(1)] by simp_all
  show "artworkRotation (step s (Frame now)) = artworkRotation s"
    using tick_first(1) [OF m, of now] eq by simp
  show "progress (step s (Frame now)) = progress s"
    using tick_first(2) [OF m, of now] eq by simp
  show "lastFrameRef (step s (Frame now)) = Some (Fin now)"
    using tick_frame(8) [OF m(1), of "Fin now"] eq by simp
qed

lemma unmounted_step:
  assumes "consistent s" "\<not> isMountedRef s"
  shows "playerState (step s e) = playerState s \<and> \<not> isMountedRef (step s e)
         \<and> timeouts (step s e) = []
         \<and> artworkRotation (step s e) = artworkRotation s
         \<and> progress (step s e) = progress s"
proof -
  have t: "timeouts s = []"
    using consistentD(3) [OF assms(1)] assms(2) by blast
  have f: "frameRequests s = []"
    using consistentD(5,6) [OF assms(1)] assms(2)
    by (cases "playerState s = Playing") simp_all
  show ?thesis
    using assms(2) t f
    by (cases e)
      (simp_all add: toggle_step_noop step_pointer advance_step_idle step_frame
        animationFrame_idle step_sample labelSample_def step_unmount)
qed

text \<open>
  Claim C5, as amended. In a reachable state that is not \<open>Playing\<close>, no event advances
  the rotation angle or the progress fraction, no frame is requested and the last
  frame time is empty: it is reset whenever the player leaves \<open>Playing\<close> for
  \<open>Loading\<close>. When an event takes the player into \<open>Playing\<close>, the first tick of the new
  run, whatever its time stamp, records that time stamp and leaves both values as
  they were: the time spent paused is not applied. After teardown no frame is
  requested and no event advances the two values either, although the last frame
  time is then left as it is.
\<close>

theorem paused_values_do_not_advance:
  "(playerState (run (mount initial) es) \<noteq> Playing \<longrightarrow>
      artworkRotation (step (run (mount initial) es) e) = artworkRotation (run (mount initial) es)
      \<and> progress (step (run (mount initial) es) e) = progress (run (mount initial) es)
      \<and> lastFrameRef (run (mount initial) es) = None
      \<and> frameRequests (run (mount initial) es) = []
      \<and> (playerState (step (run (mount initial) es) e) = Playing \<longrightarrow>
           lastFrameRef (step (step (run (mount initial) es) e) (Frame now)) = Some (Fin now)
           \<and> artworkRotation (step (step (run (mount initial) es) e) (Frame now))
               = artworkRotation (run (mount initial) es)
           \<and> progress (step (step (run (mount initial) es) e) (Frame now))
               = progress (run (mount initial) es)))
   \<and> (\<not> isMountedRef (run (mount initial) es) \<longrightarrow>
        artworkRotation (step (run (mount initial) es) e)
          = artworkRotation (run (mount initial) es)
        \<and> progress (step (run (mount initial) es) e) = progress (run (mount initial) es)
        \<and> frameRequests (run (mount initial) es) = []
        \<and> frameRequests (step (run (mount initial) es) e) = [])"
proof -
  let ?s = "run (mount initial) es"
  have c: "consistent ?s" by (rule consistent_reachable)
  have c': "consistent (step ?s e)" using c by (rule consistent_step)
  have a: "artworkRotation (step ?s e) = artworkRotation ?s
      \<and> progress (step ?s e) = progress ?s
      \<and> lastFrameRef ?s = None
      \<and> frameRequests ?s = []
      \<and> (playerState (step ?s e) = Playing \<longrightarrow>
           lastFrameRef (step (step ?s e) (Frame now)) = Some (Fin now)
           \<and> artworkRotation (step (step ?s e) (Frame now)) = artworkRotation ?s
           \<and> progress (step (step ?s e) (Frame now)) = progress ?s)"
    if np: "playerState ?s \<noteq> Playing"
  proof -
    have k: "artworkRotation (step ?s e) = artworkRotation ?s"
      "progress (step ?s e) = progress ?s"
      using quiet_step [OF c np, of e] by simp_all
    have r: "frameRequests ?s = [] \<and> lastFrameRef ?s = None"
      using consistentD(5) [OF c np] .
    have n: "lastFrameRef (step (step ?s e) (Frame now)) = Some (Fin now)
             \<and> artworkRotation (step (step ?s e) (Frame now)) = artworkRotation ?s
             \<and> progress (step (step ?s e) (Frame now)) = progress ?s"
      if pl: "playerState (step ?s e) = Playing"
    proof -
      have e: "isMountedRef (step ?s e)" "lastFrameRef (step ?s e) = None"
        using quiet_step [OF c np, of e] pl by simp_all
      show ?thesis
        using first_frame_of_run [OF c' pl e, of now] k by simp
    qed
    show ?thesis using k r n by blast
  qed
  have b: "artworkRotation (step ?s e) = artworkRotation ?s
        \<and> progress (step ?s e) = progress ?s
        \<and> frameRequests ?s = []
        \<and> frameRequests (step ?s e) = []"
    if nm: "\<not> isMountedRef ?s"
  proof -
    have u: "\<not> isMountedRef (step ?s e)"
      "artworkRotation (step ?s e) = artworkRotation ?s"
      "progress (step ?s e) = progress ?s"
      using unmounted_step [OF c nm, of e] by simp_all
    have f: "frameRequests t = []" if "consistent t" "\<not> isMountedRef t" for t
      using consistentD(5,6) [OF that(1)] that(2)
      by (cases "playerState t = Playing") simp_all
    show ?thesis
      using u f [OF c nm] f [OF c' u(1)] by simp
  qed
  show ?thesis using a b by blast
qed

text \<open>
  A player that has played for a second, with 2000 as its last frame time, is paused
  and, 500 ms later, started again: the pause has emptied the last frame time, and
  the first frame of the new run, stamped 100000, leaves the angle at 18 and the
  progress where the pause left it. The same player torn down while playing: a later
  frame changes nothing.
\<close>

theorem paused_values_do_not_advance_witness:
  "lastFrameRef (run (mount initial) [Toggle, Advance 500, Frame 1000, Frame 2000])
     = Some (Fin 2000)
   \<and> playerState (run (mount initial)
        [Toggle, Advance 500, Frame 1000, Frame 2000, Toggle, Advance 500, Toggle]) \<noteq> Playing
   \<and> lastFrameRef (run (mount initial)
        [Toggle, Advance 500, Frame 1000, Frame 2000, Toggle, Advance 500, Toggle]) = None
   \<and> playerState (step (run (mount initial)
        [Toggle, Advance 500, Frame 1000, Frame 2000, Toggle, Advance 500, Toggle])
        (Advance 500)) = Playing
   \<and> lastFrameRef (step (step (run (mount initial)
        [Toggle, Advance 500, Frame 1000, Frame 2000, Toggle, Advance 500, Toggle])
        (Advance 500)) (Frame 100000)) = Some (Fin 100000)
   \<and> artworkRotation (step (step (run (mount initial)
        [Toggle, Advance 500, Frame 1000, Frame 2000, Toggle, Advance 500, Toggle])
        (Advance 500)) (Frame 100000)) = Fin 18
   \<and> progress (step (step (run (mount initial)
        [Toggle, Advance 500, Frame 1000, Frame 2000, Toggle, Advance 500, Toggle])
        (Advance 500)) (Frame 100000)) = Fin (33600001 / 90000000)
   \<and> \<not> isMountedRef (run (mount initial)
        [Toggle, Advance 500, Frame 1000, Frame 2000, Unmount])
   \<and> progress (step (run (mount initial)
        [Toggle, Advance 500, Frame 1000, Frame 2000, Unmount]) (Frame 5000))
       = Fin (33600001 / 90000000)"
proof -
  let ?r = "run (mount initial)
    [Toggle, Advance 500, Frame 1000, Frame 2000, Toggle, Advance 500, Toggle]"
  let ?t = "run (mount initial) [Toggle, Advance 500, Frame 1000, Frame 2000, Unmount]"
  have "step ?r (Advance 500)
          = run (mount initial) [Toggle, Advance 500, Frame 1000, Frame 2000,
                                 Toggle, Advance 500, Toggle, Advance 500]"
    by (simp add: run_def)
  then have p: "playerState (step ?r (Advance 500)) = Playing"
    by (simp add: resumed_state)
  have r: "playerState ?r \<noteq> Playing" "artworkRotation ?r = Fin 18"
    "progress ?r = Fin (33600001 / 90000000)"
    by (simp_all add: resuming_state)
  have t: "\<not> isMountedRef ?t" "progress ?t = Fin (33600001 / 90000000)"
    by (simp_all add: torn_down_state)
  have l: "lastFrameRef (run (mount initial) [Toggle, Advance 500, Frame 1000, Frame 2000])
             = Some (Fin 2000)"
    by (simp add: played_state)
  show ?thesis
    using paused_values_do_not_advance
        [of "[Toggle, Advance 500, Frame 1000, Frame 2000, Toggle, Advance 500, Toggle]"
          "Advance 500" 100000]
      paused_values_do_not_advance
        [of "[Toggle, Advance 500, Frame 1000, Frame 2000, Unmount]" "Frame 5000" 0]
      p r t l
    by simp
qed

text \<open>
  Claim C5 as stated has the last frame time reset whenever the playing loop stops.
  A player torn down while playing, after a frame stamped 2000: the loop has stopped,
  no frame is requested any more, and the last frame time is still 2000.
\<close>

theorem teardown_keeps_last_frame_counterexample:
  "frameRequests (run (mount initial) [Toggle, Advance 500, Frame 1000, Frame 2000]) = [3]
   \<and> frameRequests (run (mount initial) [Toggle, Advance 500, Frame 1000, Frame 2000, Unmount])
       = []
   \<and> \<not> isMountedRef (run (mount initial)
          [Toggle, Advance 500, Frame 1000, Frame 2000, Unmount])
   \<and> lastFrameRef (run (mount initial) [Toggle, Advance 500, Frame 1000, Frame 2000, Unmount])
       = Some (Fin 2000)
   \<and> lastFrameRef (run (mount initial) [Toggle, Advance 500, Frame 1000, Frame 2000, Unmount])
       \<noteq> None"
  by (simp add: played_state torn_down_state)

section \<open>Teardown\<close>

lemma unmounted_run:
  assumes "consistent s" "\<not> isMountedRef s"
  shows "playerState (run s es) = playerState s \<and> \<not> isMountedRef (run s es)
         \<and> timeouts (run s es) = timeouts s"
  using assms
proof (induction es arbitrary: s)
  case Nil
  then show ?case by (simp add: run_def)
next
  case (Cons e es)
  have t: "timeouts s = []"
    using consistentD(3) [OF Cons.prems(1)] Cons.prems(2) by blast
  have c: "consistent (step s e)"
    using Cons.prems(1) by (rule consistent_step)
  have u: "playerState (step s e) = playerState s" "\<not> isMountedRef (step s e)"
    "timeouts (step s e) = []"
    using unmounted_step [OF Cons.prems] by simp_all
  have "run s (e # es) = run (step s e) es"
    by (simp add: run_def)
  then show ?case
    using Cons.IH [OF c u(2)] u t by simp
qed

text \<open>
  Claim C9. If the component is torn down in a reachable state in which a delayed
  toggle transition is pending, the pending transition is discarded, and whatever
  happens afterwards the player state stays \<open>Loading\<close>: it never becomes the pending
  target state.
\<close>

theorem unmount_discards_pending_toggle:
  assumes "timeouts (run (mount initial) es) = [(h, due, target)]"
  shows "timeouts (step (run (mount initial) es) Unmount) = []
         \<and> target \<noteq> Loading
         \<and> playerState (run (step (run (mount initial) es) Unmount) es') = Loading
         \<and> playerState (run (step (run (mount initial) es) Unmount) es') \<noteq> target
         \<and> timeouts (run (step (run (mount initial) es) Unmount) es') = []"
proof -
  let ?s = "run (mount initial) es"
  have c: "consistent ?s" by (rule consistent_reachable)
  have ne: "timeouts ?s \<noteq> []" using assms by simp
  from c ne obtain h' due' target' where one: "timeouts ?s = [(h', due', target')]"
    and p: "target' \<noteq> Loading" "playerState ?s = Loading" "isMountedRef ?s"
    by (rule pending_single)
  have tg: "target \<noteq> Loading" using one assms p(1) by simp
  have u: "step ?s Unmount = ?s\<lparr>isMountedRef := False, timeouts := [],
             frameRequests := [], labelInterval := None\<rparr>"
    using p(3) unmount_consistent [OF c] by (simp add: step_unmount)
  have c': "consistent (step ?s Unmount)" using c by (rule consistent_step)
  have m: "\<not> isMountedRef (step ?s Unmount)" unfolding u by simp
  have r: "playerState (run (step ?s Unmount) es') = playerState (step ?s Unmount)"
    "timeouts (run (step ?s Unmount) es') = timeouts (step ?s Unmount)"
    using unmounted_run [OF c' m, of es'] by simp_all
  have "playerState (step ?s Unmount) = Loading" "timeouts (step ?s Unmount) = []"
    unfolding u using p(2) by simp_all
  then show ?thesis using r tg by simp
qed

text \<open>Unmounting right after a click: later time and clicks do not start playback.\<close>

theorem unmount_discards_pending_toggle_witness:
  "timeouts (run (mount initial) [Toggle]) = [(2, 500, Playing)]
   \<and> timeouts (step (run (mount initial) [Toggle]) Unmount) = []
   \<and> playerState (run (step (run (mount initial) [Toggle]) Unmount) [Advance 500, Toggle, Advance 500])
       = Loading"
  using unmount_discards_pending_toggle [of "[Toggle]" 2 500 Playing "[Advance 500, Toggle, Advance 500]"]
  unfolding loading_state
  by simp

end
